theory Spec2Isabelle
  imports Complex_Main
begin

section \<open>Multiple correspondence analysis: the engine of \<^verbatim>\<open>src/mca.py\<close>\<close>

text \<open>
  Numbers: numpy's float64 values are modelled by the real numbers (exact arithmetic, no
  \<^verbatim>\<open>inf\<close>/\<^verbatim>\<open>nan\<close>), except on lines 128 and 156, where a comparison of computed
  sums decides how many dimensions are retained and the rounding of each operation is
  a parameter of the model; Python's integers by \<open>int\<close> and array indices by \<open>nat\<close>. Every \<^verbatim>\<open>raise\<close> of the source and every exception of a library call that
  the source can trigger is a value \<open>Inl e\<close> of the result type \<open>error + 'a\<close>.
\<close>

subsection \<open>Exceptions and optional arguments\<close>

datatype error =
    ValueError string
  | IndexError
  | ZeroDivisionError
  | KeyError string
  | TypeError

text \<open>
  The values that the optional arguments \<^verbatim>\<open>n_cols\<close> and \<^verbatim>\<open>N\<close> can hold:
  \<^verbatim>\<open>None\<close>, an integer, or a number that is not an integer.
\<close>

datatype pyarg = PNone | PInt int | PFloat real

text \<open>Python truthiness, as tested by \<^verbatim>\<open>if N:\<close>.\<close>

fun truthy :: "pyarg \<Rightarrow> bool" where
  "truthy PNone = False"
| "truthy (PInt n) = (n \<noteq> 0)"
| "truthy (PFloat x) = (x \<noteq> 0)"

subsection \<open>Tables and matrices\<close>

text \<open>
  A pandas DataFrame: its column labels and its rows (each row as long as the label list).
  Categorical levels are numeric codes.
\<close>

record dataframe =
  df_columns :: "string list"
  df_rows :: "real list list"

text \<open>A two-dimensional numpy array with its shape written out.\<close>

record mat =
  shape0 :: nat
  shape1 :: nat
  ent :: "real list list"

definition column :: "real list list \<Rightarrow> nat \<Rightarrow> real list" where
  "column rs j = map (\<lambda>row. row ! j) rs"

definition vdot :: "real list \<Rightarrow> real list \<Rightarrow> real" where
  "vdot xs ys = sum_list (map2 (*) xs ys)"

text \<open>\<^verbatim>\<open>numpy.dot\<close> on two matrices: the inner dimensions must agree.\<close>

definition dot :: "mat \<Rightarrow> mat \<Rightarrow> error + mat" where
  "dot A B =
     (if shape1 A = shape0 B
      then Inr \<lparr>shape0 = shape0 A, shape1 = shape1 B,
                ent = map (\<lambda>row. map (\<lambda>j. vdot row (column (ent B) j)) [0..<shape1 B]) (ent A)\<rparr>
      else Inl (ValueError ''shapes not aligned''))"

definition diag :: "real list \<Rightarrow> mat" where
  "diag v = \<lparr>shape0 = length v, shape1 = length v,
             ent = map (\<lambda>i. map (\<lambda>j. if i = j then v ! i else 0) [0..<length v]) [0..<length v]\<rparr>"

definition transpose_mat :: "mat \<Rightarrow> mat" where
  "transpose_mat A = \<lparr>shape0 = shape1 A, shape1 = shape0 A,
                      ent = map (\<lambda>j. column (ent A) j) [0..<shape1 A]\<rparr>"

definition outer :: "real list \<Rightarrow> real list \<Rightarrow> real list list" where
  "outer u v = map (\<lambda>a. map (\<lambda>b. a * b) v) u"

definition minus_rows :: "real list list \<Rightarrow> real list list \<Rightarrow> real list list" where
  "minus_rows A B = map2 (\<lambda>ra rb. map2 (-) ra rb) A B"

subsection \<open>Input normaliser: \<^verbatim>\<open>dummy\<close> and \<^verbatim>\<open>process_df\<close>\<close>

fun index_of :: "string \<Rightarrow> string list \<Rightarrow> nat" where
  "index_of x [] = 0"
| "index_of x (y # ys) = (if x = y then 0 else Suc (index_of x ys))"

text \<open>\<^verbatim>\<open>DF[col]\<close>: the values of one column; a missing label raises KeyError.\<close>

definition getitem :: "dataframe \<Rightarrow> string \<Rightarrow> error + real list" where
  "getitem DF col =
     (if col \<in> set (df_columns DF)
      then Inr (column (df_rows DF) (index_of col (df_columns DF)))
      else Inl (KeyError col))"

text \<open>
  \<^verbatim>\<open>pandas.get_dummies\<close> on one column: one indicator column per observed level, the
  levels in increasing order. The block is returned as its rows, with its width.
\<close>

definition get_dummies :: "real list \<Rightarrow> nat \<times> real list list" where
  "get_dummies vs =
     (let levels = remdups (sort vs)
      in (length levels, map (\<lambda>v. map (\<lambda>l. if v = l then 1 else 0) levels) vs))"

text \<open>Blocks side by side, each keyed block's columns labelled with its key.\<close>

fun join_blocks :: "nat \<Rightarrow> (string \<times> nat \<times> real list list) list \<Rightarrow> dataframe" where
  "join_blocks n [] = \<lparr>df_columns = [], df_rows = replicate n []\<rparr>"
| "join_blocks n ((key, w, block) # rest) =
     (let others = join_blocks n rest
      in \<lparr>df_columns = replicate w key @ df_columns others,
          df_rows = map2 (@) block (df_rows others)\<rparr>)"

text \<open>
  \<^verbatim>\<open>pandas.concat(objs, axis=1, keys=keys)\<close> on \<open>n\<close>-row blocks: an empty list of
  objects is a ValueError, and so is a number of keys that differs from the number of
  objects (pandas 3; earlier releases paired the keys with the objects and dropped the
  rest). The counts that pandas prints in the second message are left out.
\<close>

definition concat_axis1 ::
  "nat \<Rightarrow> string list \<Rightarrow> (nat \<times> real list list) list \<Rightarrow> error + dataframe" where
  "concat_axis1 n keys objs =
     (if objs = [] then Inl (ValueError ''No objects to concatenate'')
      else if length keys \<noteq> length objs
      then Inl (ValueError
                 ''The length of the keys must match the length of the objects to concatenate'')
      else Inr (join_blocks n (zip keys objs)))"

text \<open>The generator of line 32, consumed in order: the first missing label raises.\<close>

fun getitems :: "dataframe \<Rightarrow> string list \<Rightarrow> error + real list list" where
  "getitems DF [] = Inr []"
| "getitems DF (col # cs) =
     (case getitem DF col of
        Inl e \<Rightarrow> Inl e
      | Inr vs \<Rightarrow> (case getitems DF cs of Inl e \<Rightarrow> Inl e | Inr rest \<Rightarrow> Inr (vs # rest)))"

text \<open>
  \<^verbatim>\<open>dummy(DF, cols)\<close> (lines 30--34): dummy-code the selected columns (all of them when
  \<^verbatim>\<open>cols\<close> is None) and concatenate the blocks with \<^verbatim>\<open>keys=DF.columns\<close>: the keys
  are the labels of the whole table, whatever columns were selected.
\<close>

definition dummy :: "dataframe \<Rightarrow> string list option \<Rightarrow> error + dataframe" where
  "dummy DF cols =
     (case getitems DF (case cols of None \<Rightarrow> df_columns DF | Some cs \<Rightarrow> cs) of
        Inl e \<Rightarrow> Inl e
      | Inr sel \<Rightarrow> concat_axis1 (length (df_rows DF)) (df_columns DF) (map get_dummies sel))"

text \<open>\<^verbatim>\<open>if cols:\<close> holds for a non-empty list of labels.\<close>

fun cols_given :: "string list option \<Rightarrow> bool" where
  "cols_given None = False"
| "cols_given (Some cs) = (cs \<noteq> [])"

text \<open>
  The test of line 22 on a supplied \<^verbatim>\<open>ncols\<close>:
  \<^verbatim>\<open>not isinstance(ncols, int) or ncols <= 0 or ncols > len(DF.columns)\<close>.
\<close>

fun bad_ncols :: "pyarg \<Rightarrow> nat \<Rightarrow> bool" where
  "bad_ncols (PInt n) len = (n \<le> 0 \<or> n > int len)"
| "bad_ncols _ len = True"

definition process_df ::
  "dataframe \<Rightarrow> string list option \<Rightarrow> pyarg \<Rightarrow> error + (dataframe \<times> int \<times> nat)" where
  "process_df DF cols ncols =
     (if cols_given cols
      then (case dummy DF cols of
              Inl e \<Rightarrow> Inl e
            | Inr X \<Rightarrow> Inr (X, int (length (the cols)), length (df_columns X)))
      else (case ncols of
              PNone \<Rightarrow>
                (if length (df_columns DF) = 0
                 then Inl (ValueError ''Your DataFrame has no columns.'')
                 else Inr (DF, int (length (df_columns DF)), length (df_columns DF)))
            | _ \<Rightarrow>
                (if bad_ncols ncols (length (df_columns DF))
                 then Inl (ValueError ''You must pass a valid number of columns.'')
                 else Inr (DF, (case ncols of PInt n \<Rightarrow> n | _ \<Rightarrow> 0), length (df_columns DF)))))"

subsection \<open>The fitted engine\<close>

text \<open>The constructor's arguments (lines 55--61).\<close>

record config =
  self_cols :: "string list option"
  self_n_cols :: pyarg
  self_benzecri :: bool
  self_tol :: real
  self_sparse :: bool
  self_approximate :: bool

text \<open>
  The attributes of an engine after \<^verbatim>\<open>_fit\<close>. \<^verbatim>\<open>self.E\<close> is None until the
  Benzecri correction has run; \<^verbatim>\<open>self.k\<close>, \<^verbatim>\<open>self.F\<close> and \<^verbatim>\<open>self.G\<close> do not
  exist until a score calculator has set them (\<^verbatim>\<open>hasattr\<close> is \<open>\<noteq> None\<close>).
\<close>

record mca =
  conf :: config
  self_K :: int
  self_J :: nat
  self_r :: "real list"
  self_c :: "real list"
  self_D_r :: mat
  self_D_c :: mat
  self_P :: mat
  self_s :: "real list"
  self_Q :: mat
  self_numitems :: int
  self_E :: "real list option"
  self_inertia :: real
  self_rank :: nat
  self_L :: "real list"
  self_k :: "nat option"
  self_F :: "mat option"
  self_G :: "mat option"

text \<open>
  The linear-algebra library: \<^verbatim>\<open>numpy.linalg.svd\<close> and
  \<^verbatim>\<open>scipy.sparse.linalg.svds\<close>, each returning left vectors, singular values and right
  vectors (as rows), or raising.
\<close>

record solver =
  svd :: "mat \<Rightarrow> error + (mat \<times> real list \<times> mat)"
  svds :: "mat \<Rightarrow> pyarg \<Rightarrow> error + (mat \<times> real list \<times> mat)"

subsection \<open>Correspondence matrix (lines 77--87)\<close>

text \<open>\<^verbatim>\<open>finfo(float).eps\<close>, the float64 machine epsilon.\<close>

definition eps :: real where
  "eps = 1 / 2 ^ 52"

definition sum_axis0 :: "nat \<Rightarrow> real list list \<Rightarrow> real list" where
  "sum_axis0 n rs = map (\<lambda>j. sum_list (column rs j)) [0..<n]"

definition sum_axis1 :: "real list list \<Rightarrow> real list" where
  "sum_axis1 rs = map sum_list rs"

definition inv_sqrt_mass :: "real list \<Rightarrow> real list" where
  "inv_sqrt_mass m = map (\<lambda>x. 1 / (eps + sqrt x)) m"

text \<open>
  Lines 77--80: the correspondence matrix and the masses. A zero total gives
  \<^verbatim>\<open>nan\<close> entries in numpy and zeros here; the spec assumes a positive total.
\<close>

definition correspondence :: "dataframe \<Rightarrow> real list list \<times> real list \<times> real list" where
  "correspondence X =
     (let S = sum_list (sum_axis0 (length (df_columns X)) (df_rows X));
          Z = map (map (\<lambda>x. x / S)) (df_rows X)
      in (Z, sum_axis1 Z, sum_axis0 (length (df_columns X)) Z))"

text \<open>Lines 85 and 87: the standardized residuals \<^verbatim>\<open>D_r.dot(Z_c).dot(D_c)\<close>.\<close>

definition residuals :: "dataframe \<Rightarrow> error + mat" where
  "residuals X =
     (case correspondence X of (Z, r, c) \<Rightarrow>
        (case dot (diag (inv_sqrt_mass r))
                  \<lparr>shape0 = length (df_rows X), shape1 = length (df_columns X),
                   ent = minus_rows Z (outer r c)\<rparr> of
           Inl e \<Rightarrow> Inl e
         | Inr A \<Rightarrow> dot A (diag (inv_sqrt_mass c))))"

subsection \<open>Decomposition (lines 88--97)\<close>

text \<open>\<^verbatim>\<open>min(product.shape)-1\<close>, a Python integer.\<close>

definition min_shape_minus_1 :: "mat \<Rightarrow> int" where
  "min_shape_minus_1 A = int (min (shape0 A) (shape1 A)) - 1"

text \<open>\<^verbatim>\<open>P.T[::-1].T\<close> reverses the columns, \<^verbatim>\<open>Q[::-1]\<close> the rows.\<close>

definition reverse_columns :: "mat \<Rightarrow> mat" where
  "reverse_columns A = A\<lparr>ent := map rev (ent A)\<rparr>"

definition reverse_rows :: "mat \<Rightarrow> mat" where
  "reverse_rows A = A\<lparr>ent := rev (ent A)\<rparr>"

text \<open>The result is \<^verbatim>\<open>(self.P, self.s, self.Q, self._numitems)\<close>.\<close>

definition decompose ::
  "solver \<Rightarrow> config \<Rightarrow> dataframe \<Rightarrow> mat \<Rightarrow> error + (mat \<times> real list \<times> mat \<times> int)" where
  "decompose lib cfg X product =
     (if self_sparse cfg
      then (case svds lib product
                   (if self_n_cols cfg = PNone then PInt (min_shape_minus_1 product)
                    else self_n_cols cfg) of
              Inl e \<Rightarrow> Inl e
            | Inr (P, s, Q) \<Rightarrow>
                Inr (reverse_columns P, rev s, reverse_rows Q, min_shape_minus_1 product))
      else (case svd lib product of
              Inl e \<Rightarrow> Inl e
            | Inr (P, s, Q) \<Rightarrow> Inr (P, s, Q, int (length (df_rows X)))))"

subsection \<open>Eigenvalues, Benzecri correction and rank (lines 99--110)\<close>

text \<open>
  One entry of the comprehension of lines 108--109. The condition \<^verbatim>\<open>_ > 1./self.K\<close> is
  evaluated first; \<^verbatim>\<open>1./self.K\<close> and \<^verbatim>\<open>self.K/(self.K-1.)\<close> are Python scalar
  divisions and raise ZeroDivisionError on a zero divisor.
\<close>

definition benzecri_entry :: "int \<Rightarrow> real \<Rightarrow> error + real" where
  "benzecri_entry K x =
     (if K = 0 then Inl ZeroDivisionError
      else if x > 1 / real_of_int K
      then (if K = 1 then Inl ZeroDivisionError
            else Inr ((real_of_int K / (real_of_int K - 1) * (x - 1 / real_of_int K)) ^ 2))
      else Inr 0)"

fun collect :: "(error + 'a) list \<Rightarrow> error + 'a list" where
  "collect [] = Inr []"
| "collect (Inl e # rest) = Inl e"
| "collect (Inr x # rest) = (case collect rest of Inl e \<Rightarrow> Inl e | Inr xs \<Rightarrow> Inr (x # xs))"

definition squares :: "real list \<Rightarrow> real list" where
  "squares s = map (\<lambda>x. x ^ 2) s"

text \<open>\<^verbatim>\<open>_apply_benzecri_correction\<close>: computes \<^verbatim>\<open>self.E\<close> once and returns it.\<close>

definition apply_benzecri_correction :: "mca \<Rightarrow> error + (real list \<times> mca)" where
  "apply_benzecri_correction st =
     (case self_E st of
        Some E \<Rightarrow> Inr (E, st)
      | None \<Rightarrow>
          (case collect (map (benzecri_entry (self_K st)) (squares (self_s st))) of
             Inl e \<Rightarrow> Inl e
           | Inr E \<Rightarrow> Inr (E, st\<lparr>self_E := Some E\<rparr>)))"

fun index_where :: "('a \<Rightarrow> bool) \<Rightarrow> 'a list \<Rightarrow> nat" where
  "index_where p [] = 0"
| "index_where p (x # xs) = (if p x then 0 else Suc (index_where p xs))"

text \<open>
  \<^verbatim>\<open>numpy.argmax\<close>: the index of the first occurrence of the maximum; an empty array
  raises ValueError.
\<close>

definition argmax :: "'a::linorder list \<Rightarrow> error + nat" where
  "argmax xs =
     (if xs = [] then Inl (ValueError ''attempt to get argmax of an empty sequence'')
      else Inr (index_where (\<lambda>x. x = fold max (tl xs) (hd xs)) xs))"

text \<open>Lines 101--104 on the eigenvalues \<^verbatim>\<open>E\<close>: inertia, rank and \<^verbatim>\<open>L\<close>.\<close>

definition set_rank :: "real list \<Rightarrow> mca \<Rightarrow> error + mca" where
  "set_rank E st =
     (case argmax (map (\<lambda>x. x < self_tol (conf st)) E) of
        Inl e \<Rightarrow> Inl e
      | Inr i \<Rightarrow>
          (let rank = (if i = 0 then length E else i)
           in Inr (st\<lparr>self_inertia := sum_list E, self_rank := rank, self_L := take rank E\<rparr>)))"

text \<open>\<^verbatim>\<open>_fit\<close> (lines 75--104).\<close>

definition fit :: "solver \<Rightarrow> config \<Rightarrow> dataframe \<Rightarrow> error + mca" where
  "fit lib cfg DF =
     (case process_df DF (self_cols cfg) (self_n_cols cfg) of
        Inl e \<Rightarrow> Inl e
      | Inr (X, K, J) \<Rightarrow>
          (case residuals X of
             Inl e \<Rightarrow> Inl e
           | Inr product \<Rightarrow>
               (case decompose lib cfg X product of
                  Inl e \<Rightarrow> Inl e
                | Inr (P, s, Q, numitems) \<Rightarrow>
                    (let st = \<lparr>conf = cfg, self_K = K, self_J = J,
                               self_r = fst (snd (correspondence X)),
                               self_c = snd (snd (correspondence X)),
                               self_D_r = diag (inv_sqrt_mass (fst (snd (correspondence X)))),
                               self_D_c = diag (inv_sqrt_mass (snd (snd (correspondence X)))),
                               self_P = P, self_s = s, self_Q = Q, self_numitems = numitems,
                               self_E = None, self_inertia = 0, self_rank = 0, self_L = [],
                               self_k = None, self_F = None, self_G = None\<rparr>
                     in if self_benzecri cfg
                        then (case apply_benzecri_correction st of
                                Inl e \<Rightarrow> Inl e
                              | Inr (E, st') \<Rightarrow> set_rank E st')
                        else set_rank (squares s) st))))"

subsection \<open>Factor-score calculators (lines 112--164)\<close>

text \<open>The test of lines 125 and 151: \<^verbatim>\<open>not isinstance(N, (int, int64)) or N <= 0\<close>.\<close>

fun bad_N :: "pyarg \<Rightarrow> bool" where
  "bad_N (PInt n) = (n \<le> 0)"
| "bad_N _ = True"

fun int_of :: "pyarg \<Rightarrow> int" where
  "int_of (PInt n) = n"
| "int_of _ = 0"

text \<open>Lines 124--127: validate a supplied \<^verbatim>\<open>N\<close> and clamp it to the rank.\<close>

definition clamp_N :: "pyarg \<Rightarrow> nat \<Rightarrow> error + pyarg" where
  "clamp_N N rank =
     (if truthy N
      then (if bad_N N then Inl (ValueError ''N should be a positive integer.'')
            else Inr (PInt (min (int_of N) (int rank))))
      else Inr N)"

text \<open>
  Line 128 decides \<open>k\<close> by comparing float64 values, so its three kinds of float
  operation are written with their rounding: \<open>fl\<close> maps the exact result of one
  addition or multiplication to the float64 value that the operation returns. Exact
  arithmetic, which the rest of the model uses, is the rounding that changes nothing.
\<close>

definition exact :: "real \<Rightarrow> real" where
  "exact x = x"

text \<open>
  What is used of float64 rounding to nearest: it is monotone, it returns float64 values,
  which it leaves unchanged, and 0 is one of them.
\<close>

definition rounding :: "(real \<Rightarrow> real) \<Rightarrow> bool" where
  "rounding fl = ((\<forall>x y. x \<le> y \<longrightarrow> fl x \<le> fl y) \<and> (\<forall>x. fl (fl x) = fl x) \<and> fl 0 = 0)"

text \<open>
  A coarse rounding, to the nearest multiple of 1/4 (halves upwards): a format with two
  binary places, on which the effect of rounding shows at small numbers.
\<close>

definition quarters :: "real \<Rightarrow> real" where
  "quarters x = of_int \<lfloor>4 * x + 1 / 2\<rfloor> / 4"

text \<open>\<^verbatim>\<open>numpy.cumsum\<close>: the first entry is copied, every later one is a rounded addition.\<close>

fun cumsum_from :: "(real \<Rightarrow> real) \<Rightarrow> real \<Rightarrow> real list \<Rightarrow> real list" where
  "cumsum_from fl a [] = []"
| "cumsum_from fl a (x # xs) = fl (a + x) # cumsum_from fl (fl (a + x)) xs"

definition cumsum :: "(real \<Rightarrow> real) \<Rightarrow> real list \<Rightarrow> real list" where
  "cumsum fl xs = (case xs of [] \<Rightarrow> [] | x # rest \<Rightarrow> x # cumsum_from fl x rest)"

text \<open>Python's \<^verbatim>\<open>sum\<close>: from 0, one rounded addition per entry, left to right.\<close>

definition py_sum :: "(real \<Rightarrow> real) \<Rightarrow> real list \<Rightarrow> real" where
  "py_sum fl xs = foldl (\<lambda>a x. fl (a + x)) 0 xs"

definition flatnonzero :: "bool list \<Rightarrow> nat list" where
  "flatnonzero bs = filter (\<lambda>i. bs ! i) [0..<length bs]"

text \<open>\<^verbatim>\<open>a[0]\<close>: IndexError on an empty array.\<close>

definition item0 :: "'a list \<Rightarrow> error + 'a" where
  "item0 xs = (case xs of [] \<Rightarrow> Inl IndexError | x # _ \<Rightarrow> Inr x)"

text \<open>
  Lines 128 and 156:
  \<^verbatim>\<open>1 + flatnonzero(cumsum(self.L) >= sum(self.L)*percent)[0]\<close>.
\<close>

definition retained_k :: "(real \<Rightarrow> real) \<Rightarrow> real list \<Rightarrow> real \<Rightarrow> error + nat" where
  "retained_k fl L percent =
     (case item0 (flatnonzero (map (\<lambda>x. x \<ge> fl (py_sum fl L * percent)) (cumsum fl L))) of
        Inl e \<Rightarrow> Inl e
      | Inr i \<Rightarrow> Inr (1 + i))"

text \<open>
  \<^verbatim>\<open>scipy.linalg.diagsvd(s, M, N)\<close>: the M-by-N matrix with \<^verbatim>\<open>s\<close> on its diagonal;
  \<^verbatim>\<open>len(s)\<close> must be M or N, and the padding block cannot have a negative dimension.
\<close>

definition diagsvd :: "real list \<Rightarrow> int \<Rightarrow> int \<Rightarrow> error + mat" where
  "diagsvd s M N =
     (if int (length s) = M
      then (if N - M < 0 then Inl (ValueError ''negative dimensions are not allowed'')
            else Inr \<lparr>shape0 = nat M, shape1 = nat N,
                      ent = map (\<lambda>row. row @ replicate (nat (N - M)) 0) (ent (diag s))\<rparr>)
      else if int (length s) = N
      then (if M - N < 0 then Inl (ValueError ''negative dimensions are not allowed'')
            else Inr \<lparr>shape0 = nat M, shape1 = nat N,
                      ent = ent (diag s) @ replicate (nat (M - N)) (replicate (nat N) 0)\<rparr>)
      else Inl (ValueError ''Length of s must be M or N.''))"

text \<open>Lines 132--133 and 160--161.\<close>

definition num2ret :: "pyarg \<Rightarrow> nat \<Rightarrow> nat" where
  "num2ret N k = (if truthy N then nat (int_of N) else k)"

definition scaling :: "mca \<Rightarrow> real list" where
  "scaling st =
     (if self_benzecri (conf st) then map (\<lambda>x. - sqrt x) (self_L st) else self_s st)"

text \<open>
  \<^verbatim>\<open>_calc_row_factor_scores\<close>. The result is the returned matrix or the exception,
  together with the engine as the call leaves it (\<^verbatim>\<open>self.k\<close> is set on line 128, before
  the matrices are built).
\<close>

definition calc_row_factor_scores ::
  "(real \<Rightarrow> real) \<Rightarrow> mca \<Rightarrow> real \<Rightarrow> pyarg \<Rightarrow> (error + mat) \<times> mca" where
  "calc_row_factor_scores fl st percent N =
     (if \<not> (0 \<le> percent \<and> percent \<le> 1)
      then (Inl (ValueError ''Percent should be a real number between 0 and 1.''), st)
      else (case clamp_N N (self_rank st) of
              Inl e \<Rightarrow> (Inl e, st)
            | Inr N' \<Rightarrow>
                (case retained_k fl (self_L st) percent of
                   Inl e \<Rightarrow> (Inl e, st)
                 | Inr k \<Rightarrow>
                     (let st1 = st\<lparr>self_k := Some k\<rparr>; n = num2ret N' k
                      in case diagsvd (take n (scaling st1)) (self_numitems st1) (int n) of
                           Inl e \<Rightarrow> (Inl e, st1)
                         | Inr S \<Rightarrow>
                             (case dot (self_D_r st1) (self_P st1) of
                                Inl e \<Rightarrow> (Inl e, st1)
                              | Inr A \<Rightarrow>
                                  (case dot A S of
                                     Inl e \<Rightarrow> (Inl e, st1)
                                   | Inr F \<Rightarrow> (Inr F, st1\<lparr>self_F := Some F\<rparr>)))))))"

text \<open>\<^verbatim>\<open>_calc_col_factor_scores\<close>: the same with \<^verbatim>\<open>D_c\<close>, \<^verbatim>\<open>Q.T\<close> and \<^verbatim>\<open>len(self.Q)\<close>.\<close>

definition calc_col_factor_scores ::
  "(real \<Rightarrow> real) \<Rightarrow> mca \<Rightarrow> real \<Rightarrow> pyarg \<Rightarrow> (error + mat) \<times> mca" where
  "calc_col_factor_scores fl st percent N =
     (if \<not> (0 \<le> percent \<and> percent \<le> 1)
      then (Inl (ValueError ''Percent should be a real number between 0 and 1.''), st)
      else (case clamp_N N (self_rank st) of
              Inl e \<Rightarrow> (Inl e, st)
            | Inr N' \<Rightarrow>
                (case retained_k fl (self_L st) percent of
                   Inl e \<Rightarrow> (Inl e, st)
                 | Inr k \<Rightarrow>
                     (let st1 = st\<lparr>self_k := Some k\<rparr>; n = num2ret N' k
                      in case diagsvd (take n (scaling st1)) (int (shape0 (self_Q st1))) (int n) of
                           Inl e \<Rightarrow> (Inl e, st1)
                         | Inr S \<Rightarrow>
                             (case dot (self_D_c st1) (transpose_mat (self_Q st1)) of
                                Inl e \<Rightarrow> (Inl e, st1)
                              | Inr A \<Rightarrow>
                                  (case dot A S of
                                     Inl e \<Rightarrow> (Inl e, st1)
                                   | Inr G \<Rightarrow> (Inr G, st1\<lparr>self_G := Some G\<rparr>)))))))"

text \<open>\<^verbatim>\<open>fit_transform\<close> (lines 68--73); an exception of \<^verbatim>\<open>_fit\<close> leaves no result.\<close>

definition fit_transform ::
  "(real \<Rightarrow> real) \<Rightarrow> solver \<Rightarrow> config \<Rightarrow> dataframe \<Rightarrow> real \<Rightarrow> pyarg \<Rightarrow> bool
     \<Rightarrow> error + mat" where
  "fit_transform fl lib cfg X percent N col_factor_scores =
     (case fit lib cfg X of
        Inl e \<Rightarrow> Inl e
      | Inr st \<Rightarrow>
          (if col_factor_scores then fst (calc_col_factor_scores fl st percent N)
           else fst (calc_row_factor_scores fl st percent N)))"

subsection \<open>Supplementary rows (lines 216--231)\<close>

text \<open>The test of line 225: \<^verbatim>\<open>N and (not isinstance(N, int) or N <= 0)\<close>.\<close>

definition bad_sup_N :: "pyarg \<Rightarrow> bool" where
  "bad_sup_N N = (truthy N \<and> bad_N N)"

text \<open>\<^verbatim>\<open>DF.div(DF.sum(axis=1), axis=0)\<close>: each row divided by its sum.\<close>

definition row_profiles :: "dataframe \<Rightarrow> mat" where
  "row_profiles DF =
     \<lparr>shape0 = length (df_rows DF), shape1 = length (df_columns DF),
      ent = map (\<lambda>row. map (\<lambda>x. x / sum_list row) row) (df_rows DF)\<rparr>"

text \<open>\<^verbatim>\<open>A[:, :N]\<close>.\<close>

definition first_columns :: "nat \<Rightarrow> mat \<Rightarrow> mat" where
  "first_columns n A = \<lparr>shape0 = shape0 A, shape1 = min n (shape1 A), ent = map (take n) (ent A)\<rparr>"

text \<open>
  Lines 227--231, once \<^verbatim>\<open>self.G\<close> exists. A zero in \<^verbatim>\<open>s[:N]\<close> gives \<^verbatim>\<open>inf\<close> in numpy
  and zero here.
\<close>

definition project_rows :: "mca \<Rightarrow> mat \<Rightarrow> dataframe \<Rightarrow> pyarg \<Rightarrow> error + mat" where
  "project_rows st G DF N =
     (if bad_sup_N N then Inl (ValueError ''ncols should be a positive integer.'')
      else (case (if self_benzecri (conf st)
                  then (case self_E st of
                          None \<Rightarrow> Inl TypeError
                        | Some E \<Rightarrow> Inr (map (\<lambda>x. - sqrt x) E))
                  else Inr (self_s st)) of
              Inl e \<Rightarrow> Inl e
            | Inr s \<Rightarrow>
                (let n = (if truthy N then nat (min (int_of N) (int (self_rank st)))
                          else self_rank st)
                 in case diagsvd (map (\<lambda>x. - 1 / x) (take n s)) (int (shape1 G)) (int n) of
                      Inl e \<Rightarrow> Inl e
                    | Inr S_inv \<Rightarrow>
                        (case dot (row_profiles DF) G of
                           Inl e \<Rightarrow> Inl e
                         | Inr A \<Rightarrow>
                             (case dot A S_inv of
                                Inl e \<Rightarrow> Inl e
                              | Inr B \<Rightarrow> Inr (first_columns n B))))))"

text \<open>
  \<^verbatim>\<open>fs_r_sup\<close>: \<^verbatim>\<open>self.G\<close> is generated at full rank when the engine has none
  (lines 222--223, with the default \<^verbatim>\<open>percent=0.9\<close>).
\<close>

definition fs_r_sup ::
  "(real \<Rightarrow> real) \<Rightarrow> mca \<Rightarrow> dataframe \<Rightarrow> pyarg \<Rightarrow> (error + mat) \<times> mca" where
  "fs_r_sup fl st DF N =
     (case self_G st of
        Some G \<Rightarrow> (project_rows st G DF N, st)
      | None \<Rightarrow>
          (case calc_col_factor_scores fl st (9 / 10) (PInt (int (self_rank st))) of
             (Inl e, st') \<Rightarrow> (Inl e, st')
           | (Inr G, st') \<Rightarrow> (project_rows st' G DF N, st')))"

subsection \<open>The correction as the specification words it\<close>

text \<open>
  The specification's formula for one singular value \<open>\<sigma>\<close> and category count \<open>K\<close>:
  \<open>(K/(K-1) \<cdot> (\<sigma>\<^sup>2 - 1/K))\<^sup>2\<close> when \<open>\<sigma>\<^sup>2 > 1/K\<close>, otherwise 0.
\<close>

definition benzecri_formula :: "int \<Rightarrow> real \<Rightarrow> real" where
  "benzecri_formula K \<sigma> =
     (if \<sigma> ^ 2 > 1 / real_of_int K
      then (real_of_int K / (real_of_int K - 1) * (\<sigma> ^ 2 - 1 / real_of_int K)) ^ 2
      else 0)"

subsection \<open>Concrete engines\<close>

text \<open>The constructor's defaults (line 55).\<close>

definition default_config :: config where
  "default_config = \<lparr>self_cols = None, self_n_cols = PNone, self_benzecri = True,
                      self_tol = 1 / 10000, self_sparse = False, self_approximate = False\<rparr>"

text \<open>
  Four observations of one variable with four levels, already coded: the 4-by-4 identity.
  All masses are 1/4, and the standardized residual matrix is \<open>a \<cdot> (I - J/4)\<close> with
  \<open>a = 1 / (1 + 2 eps)\<^sup>2\<close> and \<open>J\<close> the all-ones matrix.
\<close>

definition identity4 :: dataframe where
  "identity4 = \<lparr>df_columns = [''a'', ''b'', ''c'', ''d''],
                df_rows = [[1, 0, 0, 0], [0, 1, 0, 0], [0, 0, 1, 0], [0, 0, 0, 1]]\<rparr>"

definition a4 :: real where
  "a4 = 1 / (1 + 2 * eps) ^ 2"

text \<open>
  A singular value decomposition of that matrix: the columns of \<open>P4\<close> are the three
  contrasts \<open>(1,1,-1,-1)/2\<close>, \<open>(1,-1,1,-1)/2\<close>, \<open>(1,-1,-1,1)/2\<close> and the constant vector;
  the rows of \<open>Q4\<close> are the same vectors; the singular values are \<open>a4, a4, a4, 0\<close>.
\<close>

definition P4 :: mat where
  "P4 = \<lparr>shape0 = 4, shape1 = 4,
         ent = [[1/2, 1/2, 1/2, 1/2], [1/2, - 1/2, - 1/2, 1/2],
                [- 1/2, 1/2, - 1/2, 1/2], [- 1/2, - 1/2, 1/2, 1/2]]\<rparr>"

definition Q4 :: mat where
  "Q4 = \<lparr>shape0 = 4, shape1 = 4,
         ent = [[1/2, 1/2, - 1/2, - 1/2], [1/2, - 1/2, 1/2, - 1/2],
                [1/2, - 1/2, - 1/2, 1/2], [1/2, 1/2, 1/2, 1/2]]\<rparr>"

text \<open>
  The truncated solver's answer for \<open>k\<close> triplets of the same matrix, \<open>k\<close> being 2 or 3:
  the first \<open>k\<close> contrasts, in the solver's reversed order.
\<close>

definition truncated4 :: "nat \<Rightarrow> mat \<times> real list \<times> mat" where
  "truncated4 k =
     (\<lparr>shape0 = 4, shape1 = k, ent = map (\<lambda>row. rev (take k row)) (ent P4)\<rparr>,
      replicate k a4,
      \<lparr>shape0 = k, shape1 = 4, ent = rev (take k (ent Q4))\<rparr>)"

definition lib4 :: solver where
  "lib4 = \<lparr>svd = (\<lambda>A. Inr (P4, [a4, a4, a4, 0], Q4)),
           svds = (\<lambda>A k. if k = PInt 2 then Inr (truncated4 2)
                          else if k = PInt 3 then Inr (truncated4 3)
                          else Inl (ValueError ''k must be between 1 and min(A.shape)''))\<rparr>"

text \<open>The engine for \<open>identity4\<close> under the defaults as line 99 leaves it, before the correction.\<close>

definition decomposed4 :: mca where
  "decomposed4 =
     \<lparr>conf = default_config, self_K = 4, self_J = 4,
      self_r = [1/4, 1/4, 1/4, 1/4], self_c = [1/4, 1/4, 1/4, 1/4],
      self_D_r = diag (inv_sqrt_mass [1/4, 1/4, 1/4, 1/4]),
      self_D_c = diag (inv_sqrt_mass [1/4, 1/4, 1/4, 1/4]),
      self_P = P4, self_s = [a4, a4, a4, 0], self_Q = Q4, self_numitems = 4,
      self_E = None, self_inertia = 0, self_rank = 0, self_L = [],
      self_k = None, self_F = None, self_G = None\<rparr>"

text \<open>
  Two observations that agree on both of two coded columns: the residual matrix is zero,
  and so are its singular values.
\<close>

definition flat2 :: dataframe where
  "flat2 = \<lparr>df_columns = [''a'', ''b''], df_rows = [[1, 1], [1, 1]]\<rparr>"

definition lib_flat2 :: solver where
  "lib_flat2 = \<lparr>svd = (\<lambda>A. Inr (diag [1, 1], [0, 0], diag [1, 1])),
                svds = (\<lambda>A k. Inr (diag [1, 1], [0, 0], diag [1, 1]))\<rparr>"

text \<open>The same engine after lines 100--104: three corrected eigenvalues above the tolerance.\<close>

definition e4 :: real where
  "e4 = benzecri_formula 4 a4"

definition fitted4 :: mca where
  "fitted4 = decomposed4\<lparr>self_E := Some [e4, e4, e4, 0], self_inertia := sum_list [e4, e4, e4, 0],
                          self_rank := 3, self_L := [e4, e4, e4]\<rparr>"

text \<open>The truncated path on the same table: without and with an explicit \<^verbatim>\<open>n_cols\<close>.\<close>

definition sparse_config :: config where
  "sparse_config = default_config\<lparr>self_sparse := True\<rparr>"

definition sparse2_config :: config where
  "sparse2_config = default_config\<lparr>self_n_cols := PInt 2, self_sparse := True\<rparr>"

definition fitted4_sparse :: mca where
  "fitted4_sparse =
     \<lparr>conf = sparse_config, self_K = 4, self_J = 4,
      self_r = [1/4, 1/4, 1/4, 1/4], self_c = [1/4, 1/4, 1/4, 1/4],
      self_D_r = diag (inv_sqrt_mass [1/4, 1/4, 1/4, 1/4]),
      self_D_c = diag (inv_sqrt_mass [1/4, 1/4, 1/4, 1/4]),
      self_P = \<lparr>shape0 = 4, shape1 = 3, ent = map (take 3) (ent P4)\<rparr>,
      self_s = [a4, a4, a4],
      self_Q = \<lparr>shape0 = 3, shape1 = 4, ent = take 3 (ent Q4)\<rparr>,
      self_numitems = 3,
      self_E = Some [e4, e4, e4], self_inertia = sum_list [e4, e4, e4], self_rank = 3,
      self_L = [e4, e4, e4], self_k = None, self_F = None, self_G = None\<rparr>"

definition e2 :: real where
  "e2 = benzecri_formula 2 a4"

definition fitted4_sparse2 :: mca where
  "fitted4_sparse2 =
     \<lparr>conf = sparse2_config, self_K = 2, self_J = 4,
      self_r = [1/4, 1/4, 1/4, 1/4], self_c = [1/4, 1/4, 1/4, 1/4],
      self_D_r = diag (inv_sqrt_mass [1/4, 1/4, 1/4, 1/4]),
      self_D_c = diag (inv_sqrt_mass [1/4, 1/4, 1/4, 1/4]),
      self_P = \<lparr>shape0 = 4, shape1 = 2, ent = map (take 2) (ent P4)\<rparr>,
      self_s = [a4, a4],
      self_Q = \<lparr>shape0 = 2, shape1 = 4, ent = take 2 (ent Q4)\<rparr>,
      self_numitems = 3,
      self_E = Some [e2, e2], self_inertia = sum_list [e2, e2], self_rank = 2, self_L = [e2, e2],
      self_k = None, self_F = None, self_G = None\<rparr>"

text \<open>
  The dense path without the Benzecri correction, and the matrix of the three contrasts
  (the first three columns of \<open>P4\<close>) scaled by a factor.
\<close>

definition plain_config :: config where
  "plain_config = default_config\<lparr>self_benzecri := False\<rparr>"

definition fitted4_plain :: mca where
  "fitted4_plain = decomposed4\<lparr>conf := plain_config,
                                self_inertia := sum_list [a4 ^ 2, a4 ^ 2, a4 ^ 2, 0],
                                self_rank := 3, self_L := [a4 ^ 2, a4 ^ 2, a4 ^ 2]\<rparr>"

definition scaled_contrasts :: "real \<Rightarrow> mat" where
  "scaled_contrasts f =
     \<lparr>shape0 = 4, shape1 = 3, ent = map (\<lambda>row. map (\<lambda>x. f * x) (take 3 row)) (ent P4)\<rparr>"

text \<open>
  A count table with equal margins and two different non-zero singular values: its
  residual matrix is \<open>a4/2\<close> times the first contrast's projector plus \<open>a4/4\<close> times the
  second's. The full decomposition lists the singular values in descending order, the
  truncated one lists the first \<open>k\<close> triplets in ascending order.
\<close>

definition graded4 :: dataframe where
  "graded4 = \<lparr>df_columns = [''a'', ''b'', ''c'', ''d''],
              df_rows = [[7, 5, 3, 1], [5, 7, 1, 3], [3, 1, 7, 5], [1, 3, 5, 7]]\<rparr>"

definition truncated_graded :: "nat \<Rightarrow> mat \<times> real list \<times> mat" where
  "truncated_graded k =
     (\<lparr>shape0 = 4, shape1 = k, ent = map (\<lambda>row. rev (take k row)) (ent P4)\<rparr>,
      rev (take k [a4 / 2, a4 / 4, 0, 0]),
      \<lparr>shape0 = k, shape1 = 4, ent = rev (take k (ent Q4))\<rparr>)"

definition lib_graded :: solver where
  "lib_graded = \<lparr>svd = (\<lambda>A. Inr (P4, [a4 / 2, a4 / 4, 0, 0], Q4)),
                 svds = (\<lambda>A k. if k = PInt 2 then Inr (truncated_graded 2)
                                else if k = PInt 3 then Inr (truncated_graded 3)
                                else Inl (ValueError ''k must be between 1 and min(A.shape)''))\<rparr>"

definition plain_sparse_config :: config where
  "plain_sparse_config = plain_config\<lparr>self_sparse := True\<rparr>"

definition fitted_graded :: mca where
  "fitted_graded =
     decomposed4\<lparr>conf := plain_config, self_s := [a4 / 2, a4 / 4, 0, 0],
                 self_inertia := sum_list [(a4 / 2) ^ 2, (a4 / 4) ^ 2, 0, 0],
                 self_rank := 2, self_L := [(a4 / 2) ^ 2, (a4 / 4) ^ 2]\<rparr>"

definition fitted_graded_sparse :: mca where
  "fitted_graded_sparse =
     \<lparr>conf = plain_sparse_config, self_K = 4, self_J = 4,
      self_r = [1/4, 1/4, 1/4, 1/4], self_c = [1/4, 1/4, 1/4, 1/4],
      self_D_r = diag (inv_sqrt_mass [1/4, 1/4, 1/4, 1/4]),
      self_D_c = diag (inv_sqrt_mass [1/4, 1/4, 1/4, 1/4]),
      self_P = \<lparr>shape0 = 4, shape1 = 3, ent = map (take 3) (ent P4)\<rparr>,
      self_s = [a4 / 2, a4 / 4, 0],
      self_Q = \<lparr>shape0 = 3, shape1 = 4, ent = take 3 (ent Q4)\<rparr>,
      self_numitems = 3,
      self_E = None, self_inertia = sum_list [(a4 / 2) ^ 2, (a4 / 4) ^ 2, 0], self_rank = 2,
      self_L = [(a4 / 2) ^ 2, (a4 / 4) ^ 2], self_k = None, self_F = None, self_G = None\<rparr>"

subsection \<open>What the engine expects of the linear-algebra library\<close>

text \<open>
  \<^verbatim>\<open>numpy.linalg.svd\<close> returns the singular values in descending order; the truncated
  solver returns them in ascending order (line 90: ``svds and svd use complementary
  orders'').
\<close>

definition svd_descending :: "solver \<Rightarrow> bool" where
  "svd_descending lib = (\<forall>A P s Q. svd lib A = Inr (P, s, Q) \<longrightarrow> sorted_wrt (\<ge>) s)"

definition svds_ascending :: "solver \<Rightarrow> bool" where
  "svds_ascending lib = (\<forall>A k P s Q. svds lib A k = Inr (P, s, Q) \<longrightarrow> sorted_wrt (\<le>) s)"

text \<open>
  The full decomposition of an m-by-n matrix: \<open>P\<close> is m-by-m, \<open>Q\<close> is n-by-n, and there
  are \<open>min m n\<close> singular values.
\<close>

definition svd_full_shapes :: "solver \<Rightarrow> bool" where
  "svd_full_shapes lib =
     (\<forall>A P s Q. svd lib A = Inr (P, s, Q) \<longrightarrow>
        shape0 P = shape0 A \<and> shape1 P = shape0 A \<and> length s = min (shape0 A) (shape1 A)
        \<and> shape0 Q = shape1 A \<and> shape1 Q = shape1 A)"

section \<open>Properties\<close>

subsection \<open>Lists of results\<close>

lemma collect_map_Inr:
  "(\<And>x. x \<in> set xs \<Longrightarrow> f x = Inr (g x)) \<Longrightarrow> collect (map f xs) = Inr (map g xs)"
  by (induction xs) auto

lemma collect_length: "collect ys = Inr xs \<Longrightarrow> length xs = length ys"
  by (induction ys arbitrary: xs rule: collect.induct) (auto split: sum.splits)

lemma collect_nth: "collect ys = Inr xs \<Longrightarrow> i < length ys \<Longrightarrow> ys ! i = Inr (xs ! i)"
proof (induction ys arbitrary: xs i rule: collect.induct)
  case (3 x rest)
  then show ?case by (cases i) (auto split: sum.splits)
qed auto

subsection \<open>Benzecri correction\<close>

lemma benzecri_entry_formula:
  "2 \<le> K \<Longrightarrow> benzecri_entry K (\<sigma> ^ 2) = Inr (benzecri_formula K \<sigma>)"
  by (simp add: benzecri_entry_def benzecri_formula_def)

lemma benzecri_formula_nonneg: "0 \<le> benzecri_formula K \<sigma>"
  by (simp add: benzecri_formula_def)

lemma benzecri_formula_zero: "0 < K \<Longrightarrow> benzecri_formula K 0 = 0"
  by (simp add: benzecri_formula_def)

lemma benzecri_entry_nonneg: "benzecri_entry K x = Inr y \<Longrightarrow> 0 \<le> y"
  by (auto simp: benzecri_entry_def split: if_splits)

lemma collect_benzecri_nonneg:
  assumes "collect (map (benzecri_entry K) xs) = Inr E"
  shows "\<forall>e \<in> set E. 0 \<le> e"
proof
  fix e assume "e \<in> set E"
  then obtain i where i: "i < length E" "E ! i = e" by (auto simp: in_set_conv_nth)
  have len: "length E = length xs" using collect_length [OF assms] by simp
  have "map (benzecri_entry K) xs ! i = Inr (E ! i)"
    using collect_nth [OF assms] i len by simp
  then have "benzecri_entry K (xs ! i) = Inr e" using i len by simp
  then show "0 \<le> e" by (rule benzecri_entry_nonneg)
qed

lemma apply_benzecri_fresh:
  assumes "2 \<le> self_K st" and "self_E st = None"
  shows "apply_benzecri_correction st =
           Inr (map (benzecri_formula (self_K st)) (self_s st),
                st\<lparr>self_E := Some (map (benzecri_formula (self_K st)) (self_s st))\<rparr>)"
proof -
  have "collect (map (benzecri_entry (self_K st)) (squares (self_s st)))
          = collect (map (\<lambda>\<sigma>. benzecri_entry (self_K st) (\<sigma> ^ 2)) (self_s st))"
    by (simp add: squares_def comp_def)
  also have "\<dots> = Inr (map (benzecri_formula (self_K st)) (self_s st))"
    by (rule collect_map_Inr) (rule benzecri_entry_formula [OF assms(1)])
  finally show ?thesis
    using assms(2) by (simp add: apply_benzecri_correction_def)
qed

text \<open>
  Claim C2. With a category count \<open>K \<ge> 2\<close>, the Benzecri correction of an engine that
  has not cached it yet returns, for every stored singular value \<open>\<sigma>\<close>, the value
  \<open>(K/(K-1) \<cdot> (\<sigma>\<^sup>2 - 1/K))\<^sup>2\<close> when \<open>\<sigma>\<^sup>2 > 1/K\<close> and 0 otherwise, and caches that list;
  every corrected eigenvalue is non-negative.
\<close>

theorem benzecri_correction_formula:
  assumes "2 \<le> self_K st" and "self_E st = None"
  shows "\<exists>E. apply_benzecri_correction st = Inr (E, st\<lparr>self_E := Some E\<rparr>)
             \<and> E = map (benzecri_formula (self_K st)) (self_s st)
             \<and> (\<forall>e \<in> set E. 0 \<le> e)"
proof -
  have "\<forall>e \<in> set (map (benzecri_formula (self_K st)) (self_s st)). 0 \<le> e"
    by (simp add: benzecri_formula_nonneg)
  with apply_benzecri_fresh [OF assms] show ?thesis by blast
qed

theorem benzecri_correction_formula_witness:
  "2 \<le> self_K decomposed4 \<and> self_E decomposed4 = None
   \<and> (\<exists>E. apply_benzecri_correction decomposed4 = Inr (E, decomposed4\<lparr>self_E := Some E\<rparr>)
          \<and> E = map (benzecri_formula 4) [a4, a4, a4, 0]
          \<and> (\<forall>e \<in> set E. 0 \<le> e))"
  using benzecri_correction_formula [of decomposed4] by (simp add: decomposed4_def)

subsection \<open>Rank determination\<close>

lemma fold_max_bool: "fold max bs (b::bool) = (b \<or> True \<in> set bs)"
  by (induction bs arbitrary: b) (auto simp: max_def)

lemma index_where_le: "index_where p xs \<le> length xs"
  by (induction xs) auto

lemma index_where_less: "\<exists>x \<in> set xs. p x \<Longrightarrow> index_where p xs < length xs"
  by (induction xs) auto

lemma index_where_holds: "\<exists>x \<in> set xs. p x \<Longrightarrow> p (xs ! index_where p xs)"
  by (induction xs) auto

lemma index_where_first: "i < index_where p xs \<Longrightarrow> \<not> p (xs ! i)"
proof (induction xs arbitrary: i)
  case (Cons x xs)
  then show ?case by (cases i) (auto split: if_splits)
qed simp

lemma index_where_none: "\<forall>x \<in> set xs. \<not> p x \<Longrightarrow> index_where p xs = length xs"
  by (induction xs) auto

text \<open>\<open>argmax\<close> of a boolean array: the first True, or 0 when there is none.\<close>

lemma argmax_bool:
  assumes "bs \<noteq> []"
  shows "argmax bs = Inr (if True \<in> set bs then index_where (\<lambda>b. b) bs else 0)"
proof -
  obtain b rest where bs: "bs = b # rest" using assms by (cases bs) auto
  have m: "fold max (tl bs) (hd bs) = (True \<in> set bs)"
    by (auto simp: bs fold_max_bool)
  show ?thesis
  proof (cases "True \<in> set bs")
    case True
    then have "(\<lambda>x. x = fold max (tl bs) (hd bs)) = (\<lambda>b. b)" using m by auto
    then show ?thesis using True assms by (simp add: argmax_def)
  next
    case False
    then have "\<not> b" by (auto simp: bs)
    then have "index_where (\<lambda>x. x = fold max (tl bs) (hd bs)) bs = 0"
      using m False by (simp add: bs)
    then show ?thesis using False assms by (simp add: argmax_def)
  qed
qed

lemma set_rank_Inr:
  assumes "set_rank E st0 = Inr st"
  shows "E \<noteq> [] \<and> 1 \<le> self_rank st \<and> self_rank st \<le> length E
         \<and> self_L st = take (self_rank st) E
         \<and> st = st0\<lparr>self_inertia := sum_list E, self_rank := self_rank st, self_L := self_L st\<rparr>"
proof -
  let ?bs = "map (\<lambda>x. x < self_tol (conf st0)) E"
  have ne: "E \<noteq> []" using assms by (auto simp: set_rank_def argmax_def split: if_splits)
  then have bs: "?bs \<noteq> []" by simp
  define i where "i = (if True \<in> set ?bs then index_where (\<lambda>b. b) ?bs else 0)"
  have a: "argmax ?bs = Inr i" unfolding i_def by (rule argmax_bool [OF bs])
  have i_le: "i \<le> length E"
    using index_where_le [of "\<lambda>b. b" ?bs] by (simp add: i_def)
  have st: "st = st0\<lparr>self_inertia := sum_list E, self_rank := (if i = 0 then length E else i),
                       self_L := take (if i = 0 then length E else i) E\<rparr>"
    using assms a by (simp add: set_rank_def Let_def)
  have r: "self_rank st = (if i = 0 then length E else i)" by (subst st) simp
  have l: "self_L st = take (self_rank st) E" by (subst st, subst r) simp
  have "1 \<le> self_rank st" using ne r by (cases E) auto
  moreover have "self_rank st \<le> length E" using r i_le by auto
  ultimately show ?thesis using ne l st r by simp
qed

lemma set_rank_fields:
  assumes "set_rank E st0 = Inr st"
  shows "conf st = conf st0" "self_K st = self_K st0" "self_P st = self_P st0"
    "self_s st = self_s st0" "self_Q st = self_Q st0" "self_numitems st = self_numitems st0"
    "self_E st = self_E st0" "self_k st = self_k st0" "self_F st = self_F st0"
    "self_G st = self_G st0" "self_D_r st = self_D_r st0" "self_D_c st = self_D_c st0"
  using assms by (auto simp: set_rank_def Let_def split: sum.splits)

subsection \<open>What a successful fit leaves\<close>

lemma fit_Inr:
  assumes "fit lib cfg DF = Inr st"
  shows "\<exists>X K J product P s Q numitems E st0.
           process_df DF (self_cols cfg) (self_n_cols cfg) = Inr (X, K, J)
         \<and> residuals X = Inr product
         \<and> decompose lib cfg X product = Inr (P, s, Q, numitems)
         \<and> set_rank E st0 = Inr st
         \<and> conf st0 = cfg \<and> self_K st0 = K \<and> self_P st0 = P \<and> self_s st0 = s \<and> self_Q st0 = Q
         \<and> self_numitems st0 = numitems \<and> self_k st0 = None \<and> self_F st0 = None \<and> self_G st0 = None
         \<and> self_D_r st0 = diag (inv_sqrt_mass (fst (snd (correspondence X))))
         \<and> self_D_c st0 = diag (inv_sqrt_mass (snd (snd (correspondence X))))
         \<and> (if self_benzecri cfg
             then collect (map (benzecri_entry K) (squares s)) = Inr E \<and> self_E st0 = Some E
             else E = squares s \<and> self_E st0 = None)"
  using assms
  by (auto simp: fit_def Let_def apply_benzecri_correction_def split: sum.splits prod.splits if_splits)

text \<open>The eigenvalues \<open>E\<close> of lines 100--104: one per singular value, none negative.\<close>

lemma fit_eigenvalues:
  assumes "fit lib cfg DF = Inr st"
  shows "\<exists>E. E \<noteq> [] \<and> length E = length (self_s st) \<and> (\<forall>e \<in> set E. 0 \<le> e)
           \<and> 1 \<le> self_rank st \<and> self_rank st \<le> length E \<and> self_L st = take (self_rank st) E
           \<and> conf st = cfg"
proof -
  from fit_Inr [OF assms] obtain X K J product P s Q numitems E st0 where
    pr: "process_df DF (self_cols cfg) (self_n_cols cfg) = Inr (X, K, J)"
    and dc: "decompose lib cfg X product = Inr (P, s, Q, numitems)"
    and sr: "set_rank E st0 = Inr st" and c: "conf st0 = cfg" and s: "self_s st0 = s"
    and e: "if self_benzecri cfg
             then collect (map (benzecri_entry K) (squares s)) = Inr E \<and> self_E st0 = Some E
             else E = squares s \<and> self_E st0 = None"
    by blast
  have len: "length E = length s"
    using e collect_length [of "map (benzecri_entry K) (squares s)" E]
    by (auto simp: squares_def split: if_splits)
  have nonneg: "\<forall>e \<in> set E. 0 \<le> e"
  proof (cases "self_benzecri cfg")
    case True
    then show ?thesis using e collect_benzecri_nonneg by auto
  next
    case False
    then show ?thesis using e by (auto simp: squares_def)
  qed
  from set_rank_Inr [OF sr] set_rank_fields [OF sr] len nonneg c s
  show ?thesis by auto
qed

lemma fit_L:
  assumes "fit lib cfg DF = Inr st"
  shows "self_L st \<noteq> []" "\<forall>e \<in> set (self_L st). 0 \<le> e"
proof -
  from fit_eigenvalues [OF assms] obtain E where
    E: "\<forall>e \<in> set E. 0 \<le> e" "1 \<le> self_rank st" "self_rank st \<le> length E"
       "self_L st = take (self_rank st) E"
    by blast
  show "self_L st \<noteq> []" using E by auto
  show "\<forall>e \<in> set (self_L st). 0 \<le> e" using E(1,4) by (auto dest: in_set_takeD)
qed

subsection \<open>The identity table under the defaults\<close>

lemma sqrt_quarter: "sqrt (1 / 4) = 1 / 2"
  by (simp add: real_sqrt_divide)

lemma upt4: "[0..<4] = [0, 1, 2, 3]"
  by (simp add: upt_rec)

lemma upt3: "[0..<3] = [0, 1, 2]"
  by (simp add: upt_rec)

lemma nth_simps4:
  "[a, b, c, d] ! 1 = b" "[a, b, c, d] ! 2 = c" "[a, b, c, d] ! 3 = d"
  "[a, b, c] ! 1 = b" "[a, b, c] ! 2 = c"
  by (simp_all add: eval_nat_numeral)

lemma take3: "take 3 [a, b, c, d] = [a, b, c]" "take 3 [a, b, c] = [a, b, c]"
  by (simp_all add: eval_nat_numeral)

lemma diag4:
  "diag [a, b, c, d] =
     \<lparr>shape0 = 4, shape1 = 4, ent = [[a, 0, 0, 0], [0, b, 0, 0], [0, 0, c, 0], [0, 0, 0, d]]\<rparr>"
  by (simp add: diag_def upt4 nth_simps4)

lemma D4: "diag (inv_sqrt_mass [1 / 4, 1 / 4, 1 / 4, 1 / 4]) =
   \<lparr>shape0 = 4, shape1 = 4,
    ent = [[1 / (eps + 1 / 2), 0, 0, 0], [0, 1 / (eps + 1 / 2), 0, 0],
           [0, 0, 1 / (eps + 1 / 2), 0], [0, 0, 0, 1 / (eps + 1 / 2)]]\<rparr>"
  by (simp add: diag_def inv_sqrt_mass_def sqrt_quarter upt4 nth_simps4)

lemma process_identity4:
  "process_df identity4 None PNone = Inr (identity4, 4, 4)"
  by (simp add: process_df_def identity4_def)

lemma correspondence_identity4:
  "correspondence identity4 =
     ([[1 / 4, 0, 0, 0], [0, 1 / 4, 0, 0], [0, 0, 1 / 4, 0], [0, 0, 0, 1 / 4]],
      [1 / 4, 1 / 4, 1 / 4, 1 / 4], [1 / 4, 1 / 4, 1 / 4, 1 / 4])"
  by (simp add: correspondence_def identity4_def sum_axis0_def sum_axis1_def column_def upt4)

lemma residuals_shape:
  "\<exists>A. residuals identity4 = Inr A \<and> shape0 A = 4 \<and> shape1 A = 4"
proof -
  have "length (df_rows identity4) = 4" "length (df_columns identity4) = 4"
    by (simp_all add: identity4_def)
  then show ?thesis
    by (simp add: residuals_def correspondence_identity4 dot_def diag_def inv_sqrt_mass_def)
qed

lemma a4_sq: "1 / 4 < a4 ^ 2"
  by (simp add: a4_def eps_def power_divide)

lemma e4_big: "\<not> e4 < 1 / 10000"
  by (simp add: e4_def benzecri_formula_def a4_def eps_def power_divide)

lemma argmax_FFFT: "argmax [False, False, False, True] = Inr 3"
  by (simp add: argmax_def)

lemma fit_identity4: "fit lib4 default_config identity4 = Inr fitted4"
proof -
  obtain A where A: "residuals identity4 = Inr A" "shape0 A = 4" "shape1 A = 4"
    using residuals_shape by blast
  have p: "process_df identity4 (self_cols default_config) (self_n_cols default_config)
             = Inr (identity4, 4, 4)"
    by (simp add: default_config_def process_identity4)
  have d: "decompose lib4 default_config identity4 A = Inr (P4, [a4, a4, a4, 0], Q4, 4)"
    by (simp add: decompose_def default_config_def lib4_def identity4_def)
  have b: "apply_benzecri_correction decomposed4
             = Inr ([e4, e4, e4, 0], decomposed4\<lparr>self_E := Some [e4, e4, e4, 0]\<rparr>)"
    using apply_benzecri_fresh [of decomposed4]
    by (simp add: decomposed4_def e4_def benzecri_formula_zero)
  have e: "\<not> e4 * 10000 < 1" using e4_big by simp
  have s: "set_rank [e4, e4, e4, 0] (decomposed4\<lparr>self_E := Some [e4, e4, e4, 0]\<rparr>) = Inr fitted4"
    by (simp add: set_rank_def decomposed4_def default_config_def e argmax_FFFT fitted4_def)
  have st0: "\<lparr>conf = default_config, self_K = 4, self_J = 4,
              self_r = fst (snd (correspondence identity4)),
              self_c = snd (snd (correspondence identity4)),
              self_D_r = diag (inv_sqrt_mass (fst (snd (correspondence identity4)))),
              self_D_c = diag (inv_sqrt_mass (snd (snd (correspondence identity4)))),
              self_P = P4, self_s = [a4, a4, a4, 0], self_Q = Q4, self_numitems = 4,
              self_E = None, self_inertia = 0, self_rank = 0, self_L = [],
              self_k = None, self_F = None, self_G = None\<rparr> = decomposed4"
    by (simp add: correspondence_identity4 decomposed4_def)
  have bz: "self_benzecri default_config" by (simp add: default_config_def)
  show ?thesis
    by (simp add: fit_def p A(1) d st0 b s bz)
qed

text \<open>
  Claim C10. After a successful fit the rank is at least 1 and at most the number of
  eigenvalues (one per stored singular value), and \<open>L\<close> has exactly \<open>rank\<close> entries, so
  it is never empty.
\<close>

theorem rank_bounds:
  assumes "fit lib cfg DF = Inr st"
  shows "1 \<le> self_rank st \<and> self_rank st \<le> length (self_s st)
         \<and> length (self_L st) = self_rank st \<and> self_L st \<noteq> []"
proof -
  from fit_eigenvalues [OF assms] obtain E where
    E: "length E = length (self_s st)" "1 \<le> self_rank st" "self_rank st \<le> length E"
       "self_L st = take (self_rank st) E"
    by blast
  then have "length (self_L st) = self_rank st" by simp
  moreover from this E(2) have "self_L st \<noteq> []" by auto
  ultimately show ?thesis using E by simp
qed

theorem rank_bounds_witness:
  "1 \<le> self_rank fitted4 \<and> self_rank fitted4 \<le> length (self_s fitted4)
   \<and> length (self_L fitted4) = self_rank fitted4 \<and> self_L fitted4 \<noteq> []
   \<and> self_rank fitted4 = 3"
  using rank_bounds [OF fit_identity4] by (simp add: fitted4_def)

subsection \<open>Retained dimensions\<close>

lemma length_cumsum_from: "length (cumsum_from fl a xs) = length xs"
  by (induction xs arbitrary: a) auto

lemma length_cumsum: "length (cumsum fl xs) = length xs"
  by (cases xs) (simp_all add: cumsum_def length_cumsum_from)

lemma item0_append: "item0 (xs @ ys) = (if xs = [] then item0 ys else item0 xs)"
  by (cases xs) (auto simp: item0_def)

lemma item0_filter_upt:
  "item0 (filter P [0..<n]) = Inr i \<longleftrightarrow> i < n \<and> P i \<and> (\<forall>j<i. \<not> P j)"
proof (induction n arbitrary: i)
  case 0
  then show ?case by (simp add: item0_def)
next
  case (Suc n)
  show ?case
  proof (cases "filter P [0..<n] = []")
    case True
    then have none: "\<forall>j<n. \<not> P j" by (auto simp: filter_empty_conv)
    have "item0 (filter P [0..<Suc n]) = (if P n then Inr n else Inl IndexError)"
      using True by (simp add: item0_def)
    then show ?thesis using none by (auto simp: less_Suc_eq)
  next
    case False
    then obtain i0 where i0: "item0 (filter P [0..<n]) = Inr i0"
      by (cases "filter P [0..<n]") (auto simp: item0_def)
    have ih: "i0 < n \<and> P i0 \<and> (\<forall>j<i0. \<not> P j)"
      using Suc.IH [of i0] i0 by simp
    have "item0 (filter P [0..<Suc n]) = Inr i0"
      using False i0 by (simp add: item0_append)
    moreover have "(i < Suc n \<and> P i \<and> (\<forall>j<i. \<not> P j)) \<longleftrightarrow> i = i0"
    proof
      assume a: "i < Suc n \<and> P i \<and> (\<forall>j<i. \<not> P j)"
      show "i = i0"
      proof (rule ccontr)
        assume "i \<noteq> i0"
        then consider "i < i0" | "i0 < i" by linarith
        then show False using a ih by cases auto
      qed
    next
      assume "i = i0"
      then show "i < Suc n \<and> P i \<and> (\<forall>j<i. \<not> P j)" using ih by simp
    qed
    ultimately show ?thesis by auto
  qed
qed

lemma item0_filter_upt_Inl:
  "item0 (filter P [0..<n]) = Inl e \<Longrightarrow> (\<forall>j<n. \<not> P j)"
  by (cases "filter P [0..<n]") (auto simp: item0_def filter_empty_conv)

lemma retained_k_unfold:
  "retained_k fl L p =
     (case item0 (filter (\<lambda>i. fl (py_sum fl L * p) \<le> cumsum fl L ! i) [0..<length L]) of
        Inl e \<Rightarrow> Inl e | Inr i \<Rightarrow> Inr (Suc i))"
proof -
  have "filter (\<lambda>i. map (\<lambda>x. fl (py_sum fl L * p) \<le> x) (cumsum fl L) ! i) [0..<length L]
        = filter (\<lambda>i. fl (py_sum fl L * p) \<le> cumsum fl L ! i) [0..<length L]"
    by (rule filter_cong) (simp_all add: length_cumsum)
  then show ?thesis
    by (simp add: retained_k_def flatnonzero_def length_cumsum split: sum.splits)
qed

text \<open>
  The stored count is the least one, numbered from 1, at which the computed cumulative
  sum reaches the computed threshold.
\<close>

lemma retained_k_Inr:
  "retained_k fl L p = Inr k \<longleftrightarrow>
     1 \<le> k \<and> k \<le> length L \<and> fl (py_sum fl L * p) \<le> cumsum fl L ! (k - 1)
     \<and> (\<forall>j. 1 \<le> j \<and> j < k \<longrightarrow> cumsum fl L ! (j - 1) < fl (py_sum fl L * p))"
  (is "?lhs \<longleftrightarrow> ?rhs")
proof
  assume ?lhs
  then obtain i where
    i0: "item0 (filter (\<lambda>i. fl (py_sum fl L * p) \<le> cumsum fl L ! i) [0..<length L]) = Inr i"
    and k: "k = Suc i"
    by (auto simp: retained_k_unfold split: sum.splits)
  from i0 have i: "i < length L" "fl (py_sum fl L * p) \<le> cumsum fl L ! i"
     "\<forall>j<i. \<not> fl (py_sum fl L * p) \<le> cumsum fl L ! j"
    by (simp_all add: item0_filter_upt)
  have "\<forall>j. 1 \<le> j \<and> j < k \<longrightarrow> cumsum fl L ! (j - 1) < fl (py_sum fl L * p)"
  proof (intro allI impI)
    fix j assume j: "1 \<le> j \<and> j < k"
    then have "j - 1 < i" using k by auto
    then have "\<not> fl (py_sum fl L * p) \<le> cumsum fl L ! (j - 1)" using i(3) by simp
    then show "cumsum fl L ! (j - 1) < fl (py_sum fl L * p)" by simp
  qed
  then show ?rhs using i k by simp
next
  assume r: ?rhs
  then obtain i where k: "k = Suc i" by (cases k) auto
  have il: "i < length L" using r k by simp
  have "\<forall>j<i. \<not> fl (py_sum fl L * p) \<le> cumsum fl L ! j"
  proof (intro allI impI)
    fix j assume "j < i"
    then have "1 \<le> Suc j \<and> Suc j < k" using k by simp
    then have "cumsum fl L ! (Suc j - 1) < fl (py_sum fl L * p)" using r by blast
    then show "\<not> fl (py_sum fl L * p) \<le> cumsum fl L ! j" by simp
  qed
  then have "item0 (filter (\<lambda>i. fl (py_sum fl L * p) \<le> cumsum fl L ! i) [0..<length L]) = Inr i"
    using r k il by (simp add: item0_filter_upt)
  then show ?lhs by (simp add: retained_k_unfold k)
qed

subsubsection \<open>Under any rounding\<close>

lemma foldl_round_nonneg:
  assumes "rounding fl" and "0 \<le> a" and "\<forall>x \<in> set xs. 0 \<le> x"
  shows "0 \<le> foldl (\<lambda>a x. fl (a + x)) a xs"
  using assms(2,3)
proof (induction xs arbitrary: a)
  case Nil
  then show ?case by simp
next
  case (Cons x xs)
  have "0 \<le> a + x" using Cons.prems by simp
  then have "fl 0 \<le> fl (a + x)" using assms(1) unfolding rounding_def by blast
  then have "0 \<le> fl (a + x)" using assms(1) by (simp add: rounding_def)
  then show ?case using Cons by simp
qed

lemma foldl_round_fixed:
  assumes "rounding fl" and "fl a = a"
  shows "fl (foldl (\<lambda>a x. fl (a + x)) a xs) = foldl (\<lambda>a x. fl (a + x)) a xs"
  using assms(2)
proof (induction xs arbitrary: a)
  case Nil
  then show ?case by simp
next
  case (Cons x xs)
  have "fl (fl (a + x)) = fl (a + x)" using assms(1) by (simp add: rounding_def)
  then show ?case using Cons.IH by simp
qed

lemma cumsum_from_last:
  "xs \<noteq> [] \<Longrightarrow> last (cumsum_from fl a xs) = foldl (\<lambda>a x. fl (a + x)) a xs"
proof (induction xs arbitrary: a)
  case Nil
  then show ?case by simp
next
  case (Cons x xs)
  then show ?case by (cases xs) auto
qed

text \<open>The last cumulative sum is the sum that Python computes: the same additions.\<close>

lemma cumsum_last:
  assumes "L \<noteq> []" and "fl (hd L) = hd L"
  shows "cumsum fl L ! (length L - 1) = py_sum fl L"
proof -
  obtain x xs where L: "L = x # xs" using assms(1) by (cases L) auto
  have x: "fl x = x" using assms(2) L by simp
  show ?thesis
  proof (cases "xs = []")
    case True
    then show ?thesis using x by (simp add: L cumsum_def py_sum_def)
  next
    case False
    then have ne: "cumsum_from fl x xs \<noteq> []" and pos: "0 < length xs" by (cases xs, auto)+
    have "cumsum fl L ! (length L - 1) = (x # cumsum_from fl x xs) ! length xs"
      by (simp add: L cumsum_def)
    also have "\<dots> = cumsum_from fl x xs ! (length xs - 1)"
      using pos by (simp add: nth_Cons')
    also have "\<dots> = last (cumsum_from fl x xs)"
      using ne by (simp add: last_conv_nth length_cumsum_from)
    finally have "cumsum fl L ! (length L - 1) = last (cumsum_from fl x xs)" .
    also have "\<dots> = foldl (\<lambda>a x. fl (a + x)) x xs" by (rule cumsum_from_last [OF False])
    finally show ?thesis using x by (simp add: L py_sum_def)
  qed
qed

lemma py_sum_bounds:
  assumes "rounding fl" and "L \<noteq> []" and "\<forall>e \<in> set L. 0 \<le> e \<and> fl e = e"
  shows "0 \<le> py_sum fl L" and "fl (py_sum fl L) = py_sum fl L"
proof -
  obtain x xs where L: "L = x # xs" using assms(2) by (cases L) auto
  have x: "fl x = x" "0 \<le> x" and xs: "\<forall>e \<in> set xs. 0 \<le> e" using assms(3) L by auto
  have p: "py_sum fl L = foldl (\<lambda>a x. fl (a + x)) x xs" using x by (simp add: L py_sum_def)
  show "0 \<le> py_sum fl L" unfolding p by (rule foldl_round_nonneg [OF assms(1) x(2) xs])
  show "fl (py_sum fl L) = py_sum fl L" unfolding p by (rule foldl_round_fixed [OF assms(1) x(1)])
qed

lemma threshold_le_sum:
  assumes "rounding fl" and "L \<noteq> []" and "\<forall>e \<in> set L. 0 \<le> e \<and> fl e = e"
    and "0 \<le> p" and "p \<le> 1"
  shows "fl (py_sum fl L * p) \<le> py_sum fl L"
proof -
  note b = py_sum_bounds [OF assms(1-3)]
  have "py_sum fl L * p \<le> py_sum fl L" using b(1) assms(5) by (simp add: mult_left_le)
  then have "fl (py_sum fl L * p) \<le> fl (py_sum fl L)" using assms(1) by (simp add: rounding_def)
  then show ?thesis using b(2) by simp
qed

lemma retained_k_exists:
  assumes "rounding fl" and "L \<noteq> []" and "\<forall>e \<in> set L. 0 \<le> e \<and> fl e = e"
    and "0 \<le> p" and "p \<le> 1"
  shows "\<exists>k. retained_k fl L p = Inr k"
proof (cases "retained_k fl L p")
  case (Inl e)
  then have "\<exists>e'. item0 (filter (\<lambda>i. fl (py_sum fl L * p) \<le> cumsum fl L ! i) [0..<length L])
                   = Inl e'"
    by (auto simp: retained_k_unfold split: sum.splits)
  then have none: "\<forall>j<length L. \<not> fl (py_sum fl L * p) \<le> cumsum fl L ! j"
    using item0_filter_upt_Inl by blast
  have "length L - 1 < length L" using assms(2) by (cases L) auto
  then have "\<not> fl (py_sum fl L * p) \<le> cumsum fl L ! (length L - 1)" using none by blast
  moreover have "fl (hd L) = hd L" using assms(2,3) by (cases L) auto
  ultimately have "\<not> fl (py_sum fl L * p) \<le> py_sum fl L"
    using cumsum_last [OF assms(2)] by simp
  then show ?thesis using threshold_le_sum [OF assms] by simp
next
  case (Inr k)
  then show ?thesis by blast
qed

lemma retained_k_zero:
  assumes "rounding fl" and "L \<noteq> []" and "\<forall>e \<in> set L. 0 \<le> e"
  shows "retained_k fl L 0 = Inr 1"
proof -
  obtain x xs where L: "L = x # xs" using assms(2) by (cases L) auto
  have "0 \<le> x" using assms(3) L by simp
  moreover have "fl 0 = 0" using assms(1) by (simp add: rounding_def)
  ultimately show ?thesis by (simp add: retained_k_Inr L cumsum_def)
qed

subsubsection \<open>In exact arithmetic\<close>

lemma rounding_exact: "rounding exact"
  by (simp add: rounding_def exact_def)

lemma rounding_quarters: "rounding quarters"
proof -
  have m: "\<And>x y::real. x \<le> y \<Longrightarrow> quarters x \<le> quarters y"
  proof -
    fix x y :: real assume "x \<le> y"
    then have "\<lfloor>4 * x + 1 / 2\<rfloor> \<le> \<lfloor>4 * y + 1 / 2\<rfloor>" by (intro floor_mono) simp
    then show "quarters x \<le> quarters y" by (simp add: quarters_def divide_right_mono)
  qed
  have i: "\<And>x. quarters (quarters x) = quarters x"
  proof -
    fix x :: real
    have "\<lfloor>of_int \<lfloor>4 * x + 1 / 2\<rfloor> + (1 / 2 :: real)\<rfloor> = \<lfloor>4 * x + 1 / 2\<rfloor>"
      by (rule floor_unique) simp_all
    then show "quarters (quarters x) = quarters x" by (simp add: quarters_def)
  qed
  have "quarters 0 = 0" by (simp add: quarters_def)
  with m i show ?thesis unfolding rounding_def by blast
qed

lemma quarters_values:
  "quarters (1 / 2) = 1 / 2" "quarters (1 / 4) = 1 / 4" "quarters (3 / 4) = 3 / 4"
  "quarters 1 = 1" "quarters (11 / 20) = 1 / 2"
  by (simp_all add: quarters_def)

lemma cumsum_from_exact_nth:
  "i < length xs \<Longrightarrow> cumsum_from exact a xs ! i = a + sum_list (take (Suc i) xs)"
proof (induction xs arbitrary: a i)
  case (Cons x xs)
  then show ?case by (cases i) (auto simp: add.assoc exact_def)
qed simp

lemma cumsum_exact_nth: "i < length L \<Longrightarrow> cumsum exact L ! i = sum_list (take (Suc i) L)"
proof (cases L)
  case Nil
  assume "i < length L"
  then show ?thesis using Nil by simp
next
  case (Cons x xs)
  assume "i < length L"
  then show ?thesis using Cons by (cases i) (simp_all add: cumsum_def cumsum_from_exact_nth)
qed

lemma foldl_exact: "foldl (\<lambda>a x. exact (a + x)) a xs = a + sum_list xs"
  by (induction xs arbitrary: a) (simp_all add: exact_def add.assoc)

lemma py_sum_exact: "py_sum exact L = sum_list L"
  by (simp add: py_sum_def foldl_exact)

lemma retained_k_exact_Inr:
  "retained_k exact L p = Inr k \<longleftrightarrow>
     1 \<le> k \<and> k \<le> length L \<and> sum_list L * p \<le> sum_list (take k L)
     \<and> (\<forall>j. 1 \<le> j \<and> j < k \<longrightarrow> sum_list (take j L) < sum_list L * p)"
proof -
  have "(1 \<le> k \<and> k \<le> length L \<and> exact (py_sum exact L * p) \<le> cumsum exact L ! (k - 1)
          \<and> (\<forall>j. 1 \<le> j \<and> j < k \<longrightarrow> cumsum exact L ! (j - 1) < exact (py_sum exact L * p)))
        \<longleftrightarrow> (1 \<le> k \<and> k \<le> length L \<and> sum_list L * p \<le> sum_list (take k L)
          \<and> (\<forall>j. 1 \<le> j \<and> j < k \<longrightarrow> sum_list (take j L) < sum_list L * p))"
  proof (cases "1 \<le> k \<and> k \<le> length L")
    case True
    then have "k - 1 < length L" "Suc (k - 1) = k" by auto
    then have k: "cumsum exact L ! (k - 1) = sum_list (take k L)"
      using cumsum_exact_nth [of "k - 1" L] by simp
    have "\<And>j. 1 \<le> j \<and> j < k \<Longrightarrow> cumsum exact L ! (j - 1) = sum_list (take j L)"
    proof -
      fix j assume "1 \<le> j \<and> j < k"
      then have "j - 1 < length L" "Suc (j - 1) = j" using True by auto
      then show "cumsum exact L ! (j - 1) = sum_list (take j L)"
        using cumsum_exact_nth [of "j - 1" L] by simp
    qed
    then show ?thesis using k by (auto simp: py_sum_exact exact_def)
  next
    case False
    then show ?thesis by auto
  qed
  then show ?thesis by (simp only: retained_k_Inr)
qed

lemma retained_k_exact_exists:
  assumes "L \<noteq> []" and "\<forall>e \<in> set L. 0 \<le> e" and "0 \<le> p" and "p \<le> 1"
  shows "\<exists>k. retained_k exact L p = Inr k"
proof -
  have "\<forall>e \<in> set L. 0 \<le> e \<and> exact e = e" using assms(2) by (simp add: exact_def)
  from retained_k_exists [OF rounding_exact assms(1) this assms(3,4)] show ?thesis .
qed

subsubsection \<open>A near tie\<close>

text \<open>
  The float64 values of 0.1 and 0.4 with \<open>percent\<close> the float64 value of 0.2: their
  rounded sum is 1/2 and the threshold is the first entry itself, so line 128 stores
  \<open>k = 1\<close>; in exact arithmetic the threshold lies above the first entry and \<open>k = 2\<close>.
\<close>

lemma retained_k_rounded_tie:
  assumes "fl x = x" and "fl (x + y) = s" and "s * p = x"
  shows "retained_k fl [x, y] p = Inr 1"
proof -
  have "py_sum fl [x, y] = s" using assms(1,2) by (simp add: py_sum_def)
  then have "fl (py_sum fl [x, y] * p) = x" using assms(1,3) by simp
  then show ?thesis by (simp add: retained_k_Inr cumsum_def)
qed

lemma retained_k_near_tie:
  assumes "fl (3602879701896397 / 2 ^ 55) = 3602879701896397 / 2 ^ 55"
    and "fl (3602879701896397 / 2 ^ 55 + 3602879701896397 / 2 ^ 53) = 1 / 2"
  shows "retained_k fl [3602879701896397 / 2 ^ 55, 3602879701896397 / 2 ^ 53]
           (3602879701896397 / 2 ^ 54) = Inr 1"
  by (rule retained_k_rounded_tie [OF assms]) simp

lemma retained_k_near_tie_exact:
  "retained_k exact [3602879701896397 / 2 ^ 55, 3602879701896397 / 2 ^ 53]
     (3602879701896397 / 2 ^ 54) = Inr 2"
proof -
  have "\<forall>j. 1 \<le> j \<and> j < (2::nat) \<longrightarrow>
          sum_list (take j [3602879701896397 / 2 ^ 55, 3602879701896397 / 2 ^ 53 :: real])
            < sum_list [3602879701896397 / 2 ^ 55, 3602879701896397 / 2 ^ 53]
                * (3602879701896397 / 2 ^ 54)"
  proof (intro allI impI)
    fix j :: nat assume "1 \<le> j \<and> j < 2"
    then have "j = 1" by simp
    then show "sum_list (take j [3602879701896397 / 2 ^ 55, 3602879701896397 / 2 ^ 53 :: real])
            < sum_list [3602879701896397 / 2 ^ 55, 3602879701896397 / 2 ^ 53]
                * (3602879701896397 / 2 ^ 54)"
      by simp
  qed
  then show ?thesis by (simp add: retained_k_exact_Inr)
qed

subsubsection \<open>What the calculators store\<close>

lemma clamp_N_ok: "\<not> (truthy N \<and> bad_N N) \<Longrightarrow> \<exists>N'. clamp_N N rank = Inr N'"
  by (auto simp: clamp_N_def)

lemma calc_row_k:
  assumes "0 \<le> p" "p \<le> 1" "clamp_N N (self_rank st) = Inr N'"
    and "retained_k fl (self_L st) p = Inr k"
  shows "self_k (snd (calc_row_factor_scores fl st p N)) = Some k"
  using assms by (simp add: calc_row_factor_scores_def Let_def split: sum.splits)

lemma calc_col_k:
  assumes "0 \<le> p" "p \<le> 1" "clamp_N N (self_rank st) = Inr N'"
    and "retained_k fl (self_L st) p = Inr k"
  shows "self_k (snd (calc_col_factor_scores fl st p N)) = Some k"
  using assms by (simp add: calc_col_factor_scores_def Let_def split: sum.splits)

text \<open>
  No call changes \<open>L\<close> or the rank: what holds of \<open>L\<close> after the fit holds before every
  later call.
\<close>

lemma calc_row_keeps:
  "self_L (snd (calc_row_factor_scores fl st p N)) = self_L st"
  "self_rank (snd (calc_row_factor_scores fl st p N)) = self_rank st"
  by (simp_all add: calc_row_factor_scores_def Let_def split: sum.splits)

lemma calc_col_keeps:
  "self_L (snd (calc_col_factor_scores fl st p N)) = self_L st"
  "self_rank (snd (calc_col_factor_scores fl st p N)) = self_rank st"
  by (simp_all add: calc_col_factor_scores_def Let_def split: sum.splits)

lemma fs_r_sup_keeps:
  "self_L (snd (fs_r_sup fl st DF N)) = self_L st"
  "self_rank (snd (fs_r_sup fl st DF N)) = self_rank st"
  using calc_col_keeps [of fl st "9 / 10" "PInt (int (self_rank st))"]
  by (auto simp: fs_r_sup_def split: option.splits prod.splits sum.splits)

lemma e4_pos: "0 < e4"
  using e4_big by simp

text \<open>
  Claim C4. On an engine whose \<open>L\<close> is non-empty, non-negative and made of float64
  values (as after every fit), for a \<open>percent\<close> in \<open>[0,1]\<close> and an \<open>N\<close> that passes the
  argument check, both score calculators store the same \<open>k\<close>, whatever \<open>k\<close> an earlier
  call left: the smallest count, numbered from 1, of leading entries of \<open>L\<close> whose
  cumulative sum, as \<^verbatim>\<open>cumsum\<close> computes it, reaches \<open>percent \<times> sum(L)\<close>, as line 128
  computes it; a \<open>percent\<close> of 0 gives \<open>k = 1\<close>. This holds for the float64 rounding and
  for exact arithmetic alike; where the two differ, the stored \<open>k\<close> follows the rounded
  values.
\<close>

theorem retained_dimension_count:
  assumes "rounding fl"
    and "self_L st \<noteq> []" and "\<forall>e \<in> set (self_L st). 0 \<le> e \<and> fl e = e"
    and "0 \<le> percent" and "percent \<le> 1"
    and "\<not> (truthy N \<and> bad_N N)"
  shows "\<exists>k. self_k (snd (calc_row_factor_scores fl st percent N)) = Some k
            \<and> self_k (snd (calc_col_factor_scores fl st percent N)) = Some k
            \<and> 1 \<le> k \<and> k \<le> length (self_L st)
            \<and> fl (py_sum fl (self_L st) * percent) \<le> cumsum fl (self_L st) ! (k - 1)
            \<and> (\<forall>j. 1 \<le> j \<and> j < k \<longrightarrow>
                  cumsum fl (self_L st) ! (j - 1) < fl (py_sum fl (self_L st) * percent))
            \<and> (percent = 0 \<longrightarrow> k = 1)"
proof -
  obtain k where k: "retained_k fl (self_L st) percent = Inr k"
    using retained_k_exists [OF assms(1-5)] by blast
  obtain N' where N': "clamp_N N (self_rank st) = Inr N'"
    using clamp_N_ok [OF assms(6)] by blast
  have "\<forall>e \<in> set (self_L st). 0 \<le> e" using assms(3) by simp
  then have z: "percent = 0 \<longrightarrow> k = 1"
    using k retained_k_zero [OF assms(1,2)] by auto
  from k have "1 \<le> k \<and> k \<le> length (self_L st)
     \<and> fl (py_sum fl (self_L st) * percent) \<le> cumsum fl (self_L st) ! (k - 1)
     \<and> (\<forall>j. 1 \<le> j \<and> j < k \<longrightarrow>
           cumsum fl (self_L st) ! (j - 1) < fl (py_sum fl (self_L st) * percent))"
    by (rule iffD1 [OF retained_k_Inr])
  then show ?thesis
    using calc_row_k [OF assms(4,5) N' k] calc_col_k [OF assms(4,5) N' k] z by auto
qed

theorem retained_dimension_count_witness:
  "rounding exact
   \<and> self_L (snd (calc_col_factor_scores exact fitted4 0 PNone)) = [e4, e4, e4]
   \<and> 0 \<le> e4 \<and> exact e4 = e4
   \<and> (0::real) \<le> 9 / 10 \<and> (9::real) / 10 \<le> 1 \<and> \<not> (truthy PNone \<and> bad_N PNone)
   \<and> self_k (snd (calc_col_factor_scores exact fitted4 0 PNone)) = Some 1
   \<and> self_k (snd (calc_row_factor_scores exact
                     (snd (calc_col_factor_scores exact fitted4 0 PNone)) (9 / 10) PNone)) = Some 3
   \<and> self_k (snd (calc_col_factor_scores exact
                     (snd (calc_col_factor_scores exact fitted4 0 PNone)) (9 / 10) PNone)) = Some 3
   \<and> rounding quarters
   \<and> self_L (fitted4\<lparr>self_L := [1 / 2, 1 / 4, 1 / 4]\<rparr>) = [1 / 2, 1 / 4, 1 / 4]
   \<and> quarters (1 / 2) = 1 / 2 \<and> quarters (1 / 4) = 1 / 4
   \<and> self_k (snd (calc_row_factor_scores quarters (fitted4\<lparr>self_L := [1 / 2, 1 / 4, 1 / 4]\<rparr>)
                     (11 / 20) PNone)) = Some 1
   \<and> self_k (snd (calc_row_factor_scores exact (fitted4\<lparr>self_L := [1 / 2, 1 / 4, 1 / 4]\<rparr>)
                     (11 / 20) PNone)) = Some 2"
proof -
  have first: "rounding exact
   \<and> self_L (snd (calc_col_factor_scores exact fitted4 0 PNone)) = [e4, e4, e4]
   \<and> 0 \<le> e4 \<and> exact e4 = e4
   \<and> (0::real) \<le> 9 / 10 \<and> (9::real) / 10 \<le> 1 \<and> \<not> (truthy PNone \<and> bad_N PNone)
   \<and> self_k (snd (calc_col_factor_scores exact fitted4 0 PNone)) = Some 1
   \<and> self_k (snd (calc_row_factor_scores exact
                     (snd (calc_col_factor_scores exact fitted4 0 PNone)) (9 / 10) PNone)) = Some 3
   \<and> self_k (snd (calc_col_factor_scores exact
                     (snd (calc_col_factor_scores exact fitted4 0 PNone)) (9 / 10) PNone)) = Some 3"
  proof -
    define st1 where "st1 = snd (calc_col_factor_scores exact fitted4 0 PNone)"
    have L4: "self_L fitted4 = [e4, e4, e4]" by (simp add: fitted4_def)
    have L: "self_L st1 = [e4, e4, e4]" by (simp add: st1_def calc_col_keeps L4)
    have e: "0 \<le> e4" "exact e4 = e4" using e4_pos by (simp_all add: exact_def)
    have ne: "self_L st1 \<noteq> []" and nn: "\<forall>e \<in> set (self_L st1). 0 \<le> e \<and> exact e = e"
      using L e by simp_all
    have N: "\<not> (truthy PNone \<and> bad_N PNone)" by simp
    have c: "clamp_N PNone (self_rank fitted4) = Inr PNone" by (simp add: clamp_N_def)
    have "retained_k exact (self_L fitted4) 0 = Inr 1"
      by (rule retained_k_zero [OF rounding_exact]) (simp_all add: L4 e)
    from calc_col_k [OF _ _ c this] have k1: "self_k st1 = Some 1" by (simp add: st1_def)
    from retained_dimension_count [OF rounding_exact ne nn _ _ N, of "9 / 10"]
    obtain k where k: "self_k (snd (calc_row_factor_scores exact st1 (9 / 10) PNone)) = Some k"
        "self_k (snd (calc_col_factor_scores exact st1 (9 / 10) PNone)) = Some k"
        "1 \<le> k" "k \<le> length (self_L st1)"
        "exact (py_sum exact (self_L st1) * (9 / 10)) \<le> cumsum exact (self_L st1) ! (k - 1)"
      by auto
    have "k = 1 \<or> k = 2 \<or> k = 3" using k(3,4) L by auto
    moreover have "k \<noteq> 1" "k \<noteq> 2"
      using k(5) e4_pos by (auto simp: L py_sum_exact exact_def cumsum_exact_nth)
    ultimately have "k = 3" by simp
    then show ?thesis
      using rounding_exact L e k1 k(1,2) by (simp add: st1_def)
  qed
  have second: "rounding quarters
   \<and> self_L (fitted4\<lparr>self_L := [1 / 2, 1 / 4, 1 / 4]\<rparr>) = [1 / 2, 1 / 4, 1 / 4]
   \<and> quarters (1 / 2) = 1 / 2 \<and> quarters (1 / 4) = 1 / 4
   \<and> self_k (snd (calc_row_factor_scores quarters (fitted4\<lparr>self_L := [1 / 2, 1 / 4, 1 / 4]\<rparr>)
                     (11 / 20) PNone)) = Some 1
   \<and> self_k (snd (calc_row_factor_scores exact (fitted4\<lparr>self_L := [1 / 2, 1 / 4, 1 / 4]\<rparr>)
                     (11 / 20) PNone)) = Some 2"
  proof -
    let ?st = "fitted4\<lparr>self_L := [1 / 2, 1 / 4, 1 / 4]\<rparr>"
    have L: "self_L ?st = [1 / 2, 1 / 4, 1 / 4]" by simp
    have ne: "self_L ?st \<noteq> []" by simp
    have N: "\<not> (truthy PNone \<and> bad_N PNone)" by simp
    have q: "\<forall>e \<in> set (self_L ?st). 0 \<le> e \<and> quarters e = e" by (simp add: quarters_values)
    have x: "\<forall>e \<in> set (self_L ?st). 0 \<le> e \<and> exact e = e" by (simp add: exact_def)
    from retained_dimension_count [OF rounding_quarters ne q _ _ N, of "11 / 20"]
    obtain k where k: "self_k (snd (calc_row_factor_scores quarters ?st (11 / 20) PNone)) = Some k"
      "1 \<le> k"
      "\<forall>j. 1 \<le> j \<and> j < k \<longrightarrow>
          cumsum quarters (self_L ?st) ! (j - 1) < quarters (py_sum quarters (self_L ?st) * (11 / 20))"
      by auto
    have "k = 1"
    proof (rule ccontr)
      assume "k \<noteq> 1"
      then have "1 \<le> (1::nat) \<and> 1 < k" using k(2) by simp
      then have "cumsum quarters (self_L ?st) ! (1 - 1)
                   < quarters (py_sum quarters (self_L ?st) * (11 / 20))"
        using k(3) by blast
      then show False by (simp add: py_sum_def cumsum_def quarters_values)
    qed
    from retained_dimension_count [OF rounding_exact ne x _ _ N, of "11 / 20"]
    obtain k' where k': "self_k (snd (calc_row_factor_scores exact ?st (11 / 20) PNone)) = Some k'"
      "1 \<le> k'" "k' \<le> length (self_L ?st)"
      "exact (py_sum exact (self_L ?st) * (11 / 20)) \<le> cumsum exact (self_L ?st) ! (k' - 1)"
      "\<forall>j. 1 \<le> j \<and> j < k' \<longrightarrow>
          cumsum exact (self_L ?st) ! (j - 1) < exact (py_sum exact (self_L ?st) * (11 / 20))"
      by auto
    have "k' \<noteq> 1" using k'(4) by (auto simp: py_sum_exact exact_def cumsum_def)
    moreover have "\<not> 2 < k'"
    proof
      assume "2 < k'"
      then have "1 \<le> (2::nat) \<and> 2 < k'" by simp
      then have "cumsum exact (self_L ?st) ! (2 - 1) < exact (py_sum exact (self_L ?st) * (11 / 20))"
        using k'(5) by blast
      then show False by (simp add: py_sum_exact exact_def cumsum_def)
    qed
    ultimately have "k' = 2" using k'(2) by simp
    show ?thesis
      using rounding_quarters quarters_values(1,2) k(1) k'(1) \<open>k = 1\<close> \<open>k' = 2\<close> by simp
  qed
  show ?thesis using first second by blast
qed

subsection \<open>Rank when the first eigenvalue is below the tolerance\<close>

lemma index_where_map: "index_where p (map f xs) = index_where (p \<circ> f) xs"
  by (induction xs) auto

lemma set_rank_value:
  assumes "set_rank E st0 = Inr st"
  shows "self_rank st =
           (if (\<exists>e \<in> set E. e < self_tol (conf st0))
                \<and> index_where (\<lambda>e. e < self_tol (conf st0)) E \<noteq> 0
            then index_where (\<lambda>e. e < self_tol (conf st0)) E else length E)"
proof -
  let ?bs = "map (\<lambda>x. x < self_tol (conf st0)) E"
  have ne: "E \<noteq> []" using assms by (auto simp: set_rank_def argmax_def split: if_splits)
  then have "argmax ?bs = Inr (if True \<in> set ?bs then index_where (\<lambda>b. b) ?bs else 0)"
    by (intro argmax_bool) simp
  moreover have "index_where (\<lambda>b. b) ?bs = index_where (\<lambda>e. e < self_tol (conf st0)) E"
    by (simp add: index_where_map comp_def)
  moreover have "(True \<in> set ?bs) = (\<exists>e \<in> set E. e < self_tol (conf st0))" by auto
  ultimately have a: "argmax ?bs = Inr (if \<exists>e \<in> set E. e < self_tol (conf st0)
                        then index_where (\<lambda>e. e < self_tol (conf st0)) E else 0)"
    by simp
  show ?thesis using assms unfolding set_rank_def a by (auto simp: Let_def)
qed

lemma upt2: "[0..<2] = [0, 1]"
  by (simp add: upt_rec)

lemma process_flat2:
  "process_df flat2 (self_cols default_config) (self_n_cols default_config) = Inr (flat2, 2, 2)"
  by (simp add: process_df_def flat2_def default_config_def)

lemma correspondence_flat2:
  "correspondence flat2 = ([[1 / 4, 1 / 4], [1 / 4, 1 / 4]], [1 / 2, 1 / 2], [1 / 2, 1 / 2])"
  by (simp add: correspondence_def flat2_def sum_axis0_def sum_axis1_def column_def upt2)

lemma residuals_flat2:
  "residuals flat2 = Inr \<lparr>shape0 = 2, shape1 = 2, ent = [[0, 0], [0, 0]]\<rparr>"
proof -
  have "length (df_rows flat2) = 2" "length (df_columns flat2) = 2"
    by (simp_all add: flat2_def)
  then show ?thesis
    by (simp add: residuals_def correspondence_flat2 dot_def diag_def inv_sqrt_mass_def
        minus_rows_def outer_def vdot_def column_def upt2)
qed

lemma argmax_TT: "argmax [True, True] = Inr 0"
  by (simp add: argmax_def)

text \<open>
  Claim C1. The fit of \<open>flat2\<close> under the defaults: both corrected eigenvalues are 0, below
  the tolerance \<open>1/10000\<close>, so the first eigenvalue below the tolerance has index 0; the
  rank that \<^verbatim>\<open>_fit\<close> stores is 2, the eigenvalue count, and \<open>L\<close> keeps both.
\<close>

theorem rank_first_eigenvalue_below_tol:
  "\<exists>st. fit lib_flat2 default_config flat2 = Inr st
        \<and> self_E st = Some [0, 0] \<and> self_tol (conf st) = 1 / 10000
        \<and> self_rank st = 2 \<and> self_L st = [0, 0]"
proof -
  have d: "decompose lib_flat2 default_config flat2 \<lparr>shape0 = 2, shape1 = 2, ent = [[0, 0], [0, 0]]\<rparr>
             = Inr (diag [1, 1], [0, 0], diag [1, 1], 2)"
    by (simp add: decompose_def default_config_def lib_flat2_def flat2_def)
  have bz: "self_benzecri default_config" "self_tol default_config = 1 / 10000"
    by (simp_all add: default_config_def)
  show ?thesis
    by (simp add: fit_def process_flat2 residuals_flat2 d bz apply_benzecri_correction_def
        squares_def benzecri_entry_def set_rank_def argmax_TT)
qed

subsection \<open>Shapes of the score matrices\<close>

lemma diagsvd_shape:
  assumes "int (length s) = N" and "N \<le> M"
  shows "\<exists>S. diagsvd s M N = Inr S \<and> shape0 S = nat M \<and> shape1 S = nat N"
  using assms by (auto simp: diagsvd_def)

lemma dot_Inr:
  "shape1 A = shape0 B \<Longrightarrow> \<exists>C. dot A B = Inr C \<and> shape0 C = shape0 A \<and> shape1 C = shape1 B"
  by (simp add: dot_def)

lemma dot_Inl:
  "shape1 A \<noteq> shape0 B \<Longrightarrow> dot A B = Inl (ValueError ''shapes not aligned'')"
  by (simp add: dot_def)

lemma calc_row_result:
  assumes "0 \<le> p" "p \<le> 1" "clamp_N N (self_rank st) = Inr N'"
    and "retained_k fl (self_L st) p = Inr k"
    and "num2ret N' k \<le> length (scaling st)"
    and "int (num2ret N' k) \<le> self_numitems st"
    and "shape1 (self_D_r st) = shape0 (self_P st)"
  shows "shape1 (self_P st) = nat (self_numitems st) \<Longrightarrow>
           \<exists>F. fst (calc_row_factor_scores fl st p N) = Inr F \<and> shape1 F = num2ret N' k
               \<and> self_F (snd (calc_row_factor_scores fl st p N)) = Some F"
    and "shape1 (self_P st) \<noteq> nat (self_numitems st) \<Longrightarrow>
           fst (calc_row_factor_scores fl st p N) = Inl (ValueError ''shapes not aligned'')"
proof -
  let ?st1 = "st\<lparr>self_k := Some k\<rparr>"
  let ?n = "num2ret N' k"
  have sc: "scaling ?st1 = scaling st" by (simp add: scaling_def)
  have "int (length (take ?n (scaling st))) = int ?n" using assms(5) by simp
  from diagsvd_shape [OF this assms(6)] obtain S where
    S: "diagsvd (take ?n (scaling st)) (self_numitems st) (int ?n) = Inr S"
       "shape0 S = nat (self_numitems st)" "shape1 S = ?n"
    by auto
  from dot_Inr [OF assms(7)] obtain A where
    A: "dot (self_D_r st) (self_P st) = Inr A" "shape1 A = shape1 (self_P st)"
    by auto
  have unfold: "calc_row_factor_scores fl st p N =
      (case dot A S of Inl e \<Rightarrow> (Inl e, ?st1) | Inr F \<Rightarrow> (Inr F, ?st1\<lparr>self_F := Some F\<rparr>))"
    using assms(1-4) S(1) A(1) by (simp add: calc_row_factor_scores_def Let_def sc)
  show "shape1 (self_P st) = nat (self_numitems st) \<Longrightarrow>
           \<exists>F. fst (calc_row_factor_scores fl st p N) = Inr F \<and> shape1 F = num2ret N' k
               \<and> self_F (snd (calc_row_factor_scores fl st p N)) = Some F"
  proof -
    assume "shape1 (self_P st) = nat (self_numitems st)"
    then have "shape1 A = shape0 S" using A(2) S(2) by simp
    from dot_Inr [OF this] obtain F where "dot A S = Inr F" "shape1 F = shape1 S" by auto
    then show ?thesis using unfold S(3) by simp
  qed
  show "shape1 (self_P st) \<noteq> nat (self_numitems st) \<Longrightarrow>
           fst (calc_row_factor_scores fl st p N) = Inl (ValueError ''shapes not aligned'')"
  proof -
    assume "shape1 (self_P st) \<noteq> nat (self_numitems st)"
    then have "shape1 A \<noteq> shape0 S" using A(2) S(2) by simp
    from dot_Inl [OF this] show ?thesis using unfold by simp
  qed
qed

lemma calc_col_result:
  assumes "0 \<le> p" "p \<le> 1" "clamp_N N (self_rank st) = Inr N'"
    and "retained_k fl (self_L st) p = Inr k"
    and "num2ret N' k \<le> length (scaling st)"
    and "num2ret N' k \<le> shape0 (self_Q st)"
    and "shape1 (self_D_c st) = shape1 (self_Q st)"
  shows "\<exists>G. fst (calc_col_factor_scores fl st p N) = Inr G \<and> shape1 G = num2ret N' k
             \<and> self_G (snd (calc_col_factor_scores fl st p N)) = Some G"
proof -
  let ?st1 = "st\<lparr>self_k := Some k\<rparr>"
  let ?n = "num2ret N' k"
  have sc: "scaling ?st1 = scaling st" by (simp add: scaling_def)
  have l: "int (length (take ?n (scaling st))) = int ?n" using assms(5) by simp
  have m: "int ?n \<le> int (shape0 (self_Q st))" using assms(6) by simp
  from diagsvd_shape [OF l m] obtain S where
    S: "diagsvd (take ?n (scaling st)) (int (shape0 (self_Q st))) (int ?n) = Inr S"
       "shape0 S = shape0 (self_Q st)" "shape1 S = ?n"
    by auto
  have "shape1 (self_D_c st) = shape0 (transpose_mat (self_Q st))"
    using assms(7) by (simp add: transpose_mat_def)
  from dot_Inr [OF this] obtain A where
    A: "dot (self_D_c st) (transpose_mat (self_Q st)) = Inr A" "shape1 A = shape0 (self_Q st)"
    by (auto simp: transpose_mat_def)
  have "shape1 A = shape0 S" using A(2) S(2) by simp
  from dot_Inr [OF this] obtain G where G: "dot A S = Inr G" "shape1 G = shape1 S" by auto
  have "calc_col_factor_scores fl st p N = (Inr G, ?st1\<lparr>self_G := Some G\<rparr>)"
    using assms(1-4) S(1) A(1) G(1) by (simp add: calc_col_factor_scores_def Let_def sc)
  then show ?thesis using G(2) S(3) by simp
qed

lemma residuals_Inr:
  "\<exists>A. residuals X = Inr A \<and> shape0 A = length (df_rows X) \<and> shape1 A = length (df_columns X)"
  by (simp add: residuals_def correspondence_def Let_def dot_def diag_def inv_sqrt_mass_def
      sum_axis0_def sum_axis1_def)

lemma mass_lengths:
  "length (fst (snd (correspondence X))) = length (df_rows X)"
  "length (snd (snd (correspondence X))) = length (df_columns X)"
  by (simp_all add: correspondence_def Let_def sum_axis0_def sum_axis1_def)

lemma dense_fit_shapes:
  assumes "fit lib cfg DF = Inr st" and "\<not> self_sparse cfg" and "svd_full_shapes lib"
  shows "shape1 (self_D_r st) = shape0 (self_P st)"
    and "shape1 (self_P st) = nat (self_numitems st)"
    and "int (self_rank st) \<le> self_numitems st"
    and "self_rank st \<le> shape0 (self_Q st)"
    and "shape1 (self_D_c st) = shape1 (self_Q st)"
proof -
  from fit_Inr [OF assms(1)] obtain X K J product P s Q numitems E st0 where
    pr: "process_df DF (self_cols cfg) (self_n_cols cfg) = Inr (X, K, J)"
    and r: "residuals X = Inr product"
    and d: "decompose lib cfg X product = Inr (P, s, Q, numitems)"
    and sr: "set_rank E st0 = Inr st"
    and f: "self_P st0 = P" "self_s st0 = s" "self_Q st0 = Q" "self_numitems st0 = numitems"
       "self_D_r st0 = diag (inv_sqrt_mass (fst (snd (correspondence X))))"
       "self_D_c st0 = diag (inv_sqrt_mass (snd (snd (correspondence X))))"
    by blast
  note g = set_rank_fields [OF sr]
  have sh: "shape0 product = length (df_rows X)" "shape1 product = length (df_columns X)"
    using residuals_Inr [of X] r by auto
  have sv: "svd lib product = Inr (P, s, Q)" and n: "numitems = int (length (df_rows X))"
    using d assms(2) by (auto simp: decompose_def split: sum.splits prod.splits)
  from assms(3) sv have c: "shape0 P = shape0 product" "shape1 P = shape0 product"
    "length s = min (shape0 product) (shape1 product)"
    "shape0 Q = shape1 product" "shape1 Q = shape1 product"
    unfolding svd_full_shapes_def by blast+
  from fit_eigenvalues [OF assms(1)] have rk: "self_rank st \<le> length (self_s st)" by auto
  show "shape1 (self_D_r st) = shape0 (self_P st)"
    using g f c sh by (simp add: diag_def inv_sqrt_mass_def mass_lengths)
  show "shape1 (self_P st) = nat (self_numitems st)" using g f c sh n by simp
  show "int (self_rank st) \<le> self_numitems st" using rk g f c sh n by simp
  show "self_rank st \<le> shape0 (self_Q st)" using rk g f c sh by simp
  show "shape1 (self_D_c st) = shape1 (self_Q st)"
    using g f c sh by (simp add: diag_def inv_sqrt_mass_def mass_lengths)
qed

lemma scaling_length:
  assumes "fit lib cfg DF = Inr st"
  shows "self_rank st \<le> length (scaling st)"
proof -
  from fit_eigenvalues [OF assms] obtain E where
    "length E = length (self_s st)" "self_rank st \<le> length E" "self_L st = take (self_rank st) E"
    by blast
  then show ?thesis by (simp add: scaling_def)
qed

text \<open>
  In dense mode a request for more factors than the rank is clamped: neither calculator
  raises and the score matrix has \<open>rank\<close> columns.
\<close>

lemma dense_scores_clamped:
  assumes "fit lib cfg DF = Inr st" and "\<not> self_sparse cfg" and "svd_full_shapes lib"
    and "0 \<le> p" and "p \<le> 1" and "int (self_rank st) < m"
    and "rounding fl" and "\<forall>e \<in> set (self_L st). fl e = e"
  shows "\<exists>F. fst (calc_row_factor_scores fl st p (PInt m)) = Inr F \<and> shape1 F = self_rank st"
    and "\<exists>G. fst (calc_col_factor_scores fl st p (PInt m)) = Inr G \<and> shape1 G = self_rank st"
proof -
  note sh = dense_fit_shapes [OF assms(1-3)]
  note L = fit_L [OF assms(1)]
  have "\<forall>e \<in> set (self_L st). 0 \<le> e \<and> fl e = e" using L(2) assms(8) by simp
  from retained_k_exists [OF assms(7) L(1) this assms(4,5)]
  obtain k where k: "retained_k fl (self_L st) p = Inr k" by blast
  have r1: "1 \<le> self_rank st" using fit_eigenvalues [OF assms(1)] by auto
  have c: "clamp_N (PInt m) (self_rank st) = Inr (PInt (int (self_rank st)))"
    using assms(6) r1 by (simp add: clamp_N_def min_def)
  have n: "num2ret (PInt (int (self_rank st))) k = self_rank st"
    using r1 by (simp add: num2ret_def)
  have "\<exists>F. fst (calc_row_factor_scores fl st p (PInt m)) = Inr F
           \<and> shape1 F = num2ret (PInt (int (self_rank st))) k
           \<and> self_F (snd (calc_row_factor_scores fl st p (PInt m))) = Some F"
    by (rule calc_row_result(1) [OF assms(4,5) c k])
       (simp_all add: n scaling_length [OF assms(1)] sh)
  then show "\<exists>F. fst (calc_row_factor_scores fl st p (PInt m)) = Inr F \<and> shape1 F = self_rank st"
    using n by auto
  have "\<exists>G. fst (calc_col_factor_scores fl st p (PInt m)) = Inr G
           \<and> shape1 G = num2ret (PInt (int (self_rank st))) k
           \<and> self_G (snd (calc_col_factor_scores fl st p (PInt m))) = Some G"
    by (rule calc_col_result [OF assms(4,5) c k])
       (simp_all add: n scaling_length [OF assms(1)] sh)
  then show "\<exists>G. fst (calc_col_factor_scores fl st p (PInt m)) = Inr G \<and> shape1 G = self_rank st"
    using n by auto
qed

subsection \<open>The identity table on the truncated path\<close>

lemma replicate2: "replicate 2 x = [x, x]"
  by (simp add: numeral_2_eq_2)

lemma replicate3: "replicate 3 x = [x, x, x]"
  by (simp add: numeral_3_eq_3)

lemma process_identity4_ncols2:
  "process_df identity4 None (PInt 2) = Inr (identity4, 2, 4)"
  by (simp add: process_df_def identity4_def)

lemma e2_big: "\<not> e2 * 10000 < 1"
  by (simp add: e2_def benzecri_formula_def a4_def eps_def power_divide)

lemma argmax_FF: "argmax [False, False] = Inr 0"
  by (simp add: argmax_def)

lemma argmax_FFF: "argmax [False, False, False] = Inr 0"
  by (simp add: argmax_def)

lemma fit_sparse2: "fit lib4 sparse2_config identity4 = Inr fitted4_sparse2"
proof -
  obtain A where A: "residuals identity4 = Inr A" "shape0 A = 4" "shape1 A = 4"
    using residuals_shape by blast
  have c: "self_cols sparse2_config = None" "self_n_cols sparse2_config = PInt 2"
     "self_benzecri sparse2_config" "self_sparse sparse2_config"
     "self_tol sparse2_config = 1 / 10000"
    by (simp_all add: sparse2_config_def default_config_def)
  have d: "decompose lib4 sparse2_config identity4 A =
             Inr (\<lparr>shape0 = 4, shape1 = 2, ent = map (take 2) (ent P4)\<rparr>, [a4, a4],
                  \<lparr>shape0 = 2, shape1 = 4, ent = take 2 (ent Q4)\<rparr>, 3)"
    using A(2,3)
    by (simp add: decompose_def c lib4_def truncated4_def reverse_columns_def reverse_rows_def
        min_shape_minus_1_def P4_def Q4_def replicate2)
  have b: "collect (map (benzecri_entry 2) (squares [a4, a4])) = Inr [e2, e2]"
    using benzecri_entry_formula [of 2 a4] by (simp add: squares_def e2_def)
  show ?thesis
    by (simp add: fit_def c process_identity4_ncols2 A(1) d correspondence_identity4
        apply_benzecri_correction_def b set_rank_def e2_big argmax_FF fitted4_sparse2_def)
qed

lemma fit_sparse: "fit lib4 sparse_config identity4 = Inr fitted4_sparse"
proof -
  obtain A where A: "residuals identity4 = Inr A" "shape0 A = 4" "shape1 A = 4"
    using residuals_shape by blast
  have c: "self_cols sparse_config = None" "self_n_cols sparse_config = PNone"
     "self_benzecri sparse_config" "self_sparse sparse_config"
     "self_tol sparse_config = 1 / 10000"
    by (simp_all add: sparse_config_def default_config_def)
  have d: "decompose lib4 sparse_config identity4 A =
             Inr (\<lparr>shape0 = 4, shape1 = 3, ent = map (take 3) (ent P4)\<rparr>, [a4, a4, a4],
                  \<lparr>shape0 = 3, shape1 = 4, ent = take 3 (ent Q4)\<rparr>, 3)"
    using A(2,3)
    by (simp add: decompose_def c lib4_def truncated4_def reverse_columns_def reverse_rows_def
        min_shape_minus_1_def P4_def Q4_def replicate3)
  have b: "collect (map (benzecri_entry 4) (squares [a4, a4, a4])) = Inr [e4, e4, e4]"
    using benzecri_entry_formula [of 4 a4] by (simp add: squares_def e4_def)
  have e: "\<not> e4 * 10000 < 1" using e4_big by simp
  show ?thesis
    by (simp add: fit_def c process_identity4 A(1) d correspondence_identity4
        apply_benzecri_correction_def b set_rank_def e argmax_FFF fitted4_sparse_def)
qed

lemma a4_nonneg: "0 \<le> a4"
  by (simp add: a4_def)

lemma lib4_descending: "svd_descending lib4"
  by (simp add: svd_descending_def lib4_def a4_nonneg)

lemma lib4_ascending: "svds_ascending lib4"
  by (auto simp: svds_ascending_def lib4_def truncated4_def replicate2 replicate3 split: if_splits)

text \<open>
  In sparse mode the solver is asked for \<open>min(shape) - 1\<close> triplets, or for \<open>n_cols\<close> when
  that is given, while \<open>_numitems\<close> is \<open>min(shape) - 1\<close> in both cases.
\<close>

lemma sparse_fit_numitems:
  assumes "fit lib cfg DF = Inr st" and "self_sparse cfg"
  shows "\<exists>product P s Q.
           svds lib product (if self_n_cols cfg = PNone then PInt (min_shape_minus_1 product)
                             else self_n_cols cfg) = Inr (P, s, Q)
         \<and> self_s st = rev s \<and> self_numitems st = min_shape_minus_1 product"
proof -
  from fit_Inr [OF assms(1)] obtain X K J product P s Q numitems E st0 where
    pr: "process_df DF (self_cols cfg) (self_n_cols cfg) = Inr (X, K, J)"
    and d: "decompose lib cfg X product = Inr (P, s, Q, numitems)"
    and sr: "set_rank E st0 = Inr st"
    and f: "self_s st0 = s" "self_numitems st0 = numitems"
    by blast
  note g = set_rank_fields [OF sr]
  from d assms(2) obtain P' s' Q' where
    sv: "svds lib product (if self_n_cols cfg = PNone then PInt (min_shape_minus_1 product)
                           else self_n_cols cfg) = Inr (P', s', Q')"
    and eq: "s = rev s'" "numitems = min_shape_minus_1 product"
    by (auto simp: decompose_def split: sum.splits prod.splits)
  have "self_s st = rev s'" "self_numitems st = min_shape_minus_1 product"
    using eq f g by simp_all
  with sv show ?thesis by blast
qed

text \<open>
  Claim C7. The sparse fit of \<open>identity4\<close> with \<open>n_cols = 2\<close>: the solver is asked for
  \<open>k' = 2\<close> triplets (two singular values, two columns of \<open>P\<close>, two rows of \<open>Q\<close>), and
  \<open>_numitems\<close> is \<open>min(4, 4) - 1 = 3\<close>, not \<open>k'\<close>.
\<close>

theorem sparse_numitems_with_n_cols:
  "fit lib4 sparse2_config identity4 = Inr fitted4_sparse2
   \<and> self_n_cols sparse2_config = PInt 2
   \<and> length (self_s fitted4_sparse2) = 2
   \<and> shape1 (self_P fitted4_sparse2) = 2
   \<and> shape0 (self_Q fitted4_sparse2) = 2
   \<and> self_numitems fitted4_sparse2 = 3"
  using fit_sparse2 by (simp add: fitted4_sparse2_def sparse2_config_def default_config_def)

text \<open>
  Claim C6. On that engine the rank is 2; asking the row calculator (in exact arithmetic)
  for \<open>N = 5\<close> factors clamps \<open>N\<close> to 2 and then raises: \<open>D_r \<cdot> P\<close> is 4-by-2 and the diagonal matrix, built
  with \<open>_numitems = 3\<close> rows, is 3-by-2.
\<close>

theorem clamp_sparse_row_scores:
  "fit lib4 sparse2_config identity4 = Inr fitted4_sparse2
   \<and> self_rank fitted4_sparse2 = 2
   \<and> fst (calc_row_factor_scores exact fitted4_sparse2 (9 / 10) (PInt 5))
       = Inl (ValueError ''shapes not aligned'')"
proof -
  have L: "self_L fitted4_sparse2 \<noteq> []" "\<forall>e \<in> set (self_L fitted4_sparse2). 0 \<le> e"
    using fit_L [OF fit_sparse2] by auto
  obtain k where k: "retained_k exact (self_L fitted4_sparse2) (9 / 10) = Inr k"
    using retained_k_exact_exists [OF L, of "9 / 10"] by auto
  have c: "clamp_N (PInt 5) (self_rank fitted4_sparse2) = Inr (PInt 2)"
    by (simp add: clamp_N_def fitted4_sparse2_def)
  have n: "num2ret (PInt 2) k = 2" by (simp add: num2ret_def)
  have "fst (calc_row_factor_scores exact fitted4_sparse2 (9 / 10) (PInt 5))
          = Inl (ValueError ''shapes not aligned'')"
    by (rule calc_row_result(2) [OF _ _ c k])
       (simp_all add: n, simp_all add: fitted4_sparse2_def scaling_def sparse2_config_def
          default_config_def diag_def inv_sqrt_mass_def)
  then show ?thesis by (simp add: fit_sparse2) (simp add: fitted4_sparse2_def)
qed

subsection \<open>Argument checks of the score calculators\<close>

text \<open>The two argument errors of the calculators, and nothing else, carry these messages.\<close>

lemma calc_row_percent_error:
  "fst (calc_row_factor_scores fl st p N)
     = Inl (ValueError ''Percent should be a real number between 0 and 1.'')
   \<longleftrightarrow> \<not> (0 \<le> p \<and> p \<le> 1)"
  by (auto simp: calc_row_factor_scores_def clamp_N_def retained_k_def item0_def diagsvd_def
      dot_def Let_def split: sum.splits list.splits if_splits)

lemma calc_row_N_error:
  "fst (calc_row_factor_scores fl st p N) = Inl (ValueError ''N should be a positive integer.'')
   \<longleftrightarrow> 0 \<le> p \<and> p \<le> 1 \<and> truthy N \<and> bad_N N"
  by (auto simp: calc_row_factor_scores_def clamp_N_def retained_k_def item0_def diagsvd_def
      dot_def Let_def split: sum.splits list.splits if_splits)

lemma calc_col_percent_error:
  "fst (calc_col_factor_scores fl st p N)
     = Inl (ValueError ''Percent should be a real number between 0 and 1.'')
   \<longleftrightarrow> \<not> (0 \<le> p \<and> p \<le> 1)"
  by (auto simp: calc_col_factor_scores_def clamp_N_def retained_k_def item0_def diagsvd_def
      dot_def Let_def split: sum.splits list.splits if_splits)

lemma calc_col_N_error:
  "fst (calc_col_factor_scores fl st p N) = Inl (ValueError ''N should be a positive integer.'')
   \<longleftrightarrow> 0 \<le> p \<and> p \<le> 1 \<and> truthy N \<and> bad_N N"
  by (auto simp: calc_col_factor_scores_def clamp_N_def retained_k_def item0_def diagsvd_def
      dot_def Let_def split: sum.splits list.splits if_splits)

lemma num2ret_zero: "num2ret (PInt 0) = num2ret PNone"
  by (rule ext) (simp add: num2ret_def)

lemma calc_row_zero_N:
  "calc_row_factor_scores fl st p (PInt 0) = calc_row_factor_scores fl st p PNone"
  by (simp add: calc_row_factor_scores_def clamp_N_def num2ret_zero cong: sum.case_cong)

lemma calc_col_zero_N:
  "calc_col_factor_scores fl st p (PInt 0) = calc_col_factor_scores fl st p PNone"
  by (simp add: calc_col_factor_scores_def clamp_N_def num2ret_zero cong: sum.case_cong)

text \<open>
  Claim C5. On the fitted engine of \<open>identity4\<close>, \<open>N = 0\<close> is not rejected: both
  calculators (in exact arithmetic) return a matrix, the one they return when \<open>N\<close> is
  omitted.
\<close>

theorem zero_N_not_rejected:
  "fit lib4 default_config identity4 = Inr fitted4
   \<and> (\<exists>F. fst (calc_row_factor_scores exact fitted4 (9 / 10) (PInt 0)) = Inr F)
   \<and> (\<exists>G. fst (calc_col_factor_scores exact fitted4 (9 / 10) (PInt 0)) = Inr G)
   \<and> calc_row_factor_scores exact fitted4 (9 / 10) (PInt 0)
       = calc_row_factor_scores exact fitted4 (9 / 10) PNone
   \<and> calc_col_factor_scores exact fitted4 (9 / 10) (PInt 0)
       = calc_col_factor_scores exact fitted4 (9 / 10) PNone"
proof -
  have L: "self_L fitted4 \<noteq> []" "\<forall>e \<in> set (self_L fitted4). 0 \<le> e"
    using fit_L [OF fit_identity4] by auto
  obtain k where k: "retained_k exact (self_L fitted4) (9 / 10) = Inr k"
    using retained_k_exact_exists [OF L, of "9 / 10"] by auto
  then have kl: "k \<le> 3" by (simp add: retained_k_exact_Inr fitted4_def)
  have c: "clamp_N (PInt 0) (self_rank fitted4) = Inr (PInt 0)"
    by (simp add: clamp_N_def)
  have n: "num2ret (PInt 0) k = k" by (simp add: num2ret_def)
  have row: "\<exists>F. fst (calc_row_factor_scores exact fitted4 (9 / 10) (PInt 0)) = Inr F"
  proof -
    have "\<exists>F. fst (calc_row_factor_scores exact fitted4 (9 / 10) (PInt 0)) = Inr F
              \<and> shape1 F = num2ret (PInt 0) k
              \<and> self_F (snd (calc_row_factor_scores exact fitted4 (9 / 10) (PInt 0))) = Some F"
      using kl
      by (intro calc_row_result(1) [OF _ _ c k])
         (simp_all add: n, simp_all add: fitted4_def decomposed4_def scaling_def
            default_config_def diag_def inv_sqrt_mass_def P4_def)
    then show ?thesis by blast
  qed
  have col: "\<exists>G. fst (calc_col_factor_scores exact fitted4 (9 / 10) (PInt 0)) = Inr G"
  proof -
    have "\<exists>G. fst (calc_col_factor_scores exact fitted4 (9 / 10) (PInt 0)) = Inr G
              \<and> shape1 G = num2ret (PInt 0) k
              \<and> self_G (snd (calc_col_factor_scores exact fitted4 (9 / 10) (PInt 0))) = Some G"
      using kl
      by (intro calc_col_result [OF _ _ c k])
         (simp_all add: n, simp_all add: fitted4_def decomposed4_def scaling_def
            default_config_def diag_def inv_sqrt_mass_def Q4_def)
    then show ?thesis by blast
  qed
  have "calc_row_factor_scores exact fitted4 (9 / 10) (PInt 0)
          = calc_row_factor_scores exact fitted4 (9 / 10) PNone"
    by (rule calc_row_zero_N)
  moreover have "calc_col_factor_scores exact fitted4 (9 / 10) (PInt 0)
          = calc_col_factor_scores exact fitted4 (9 / 10) PNone"
    by (rule calc_col_zero_N)
  ultimately show ?thesis using row col fit_identity4 by simp
qed

subsection \<open>Order of the singular values\<close>

text \<open>
  Reversing pairs the stored triplet \<open>i\<close> with the solver's triplet \<open>n - 1 - i\<close>: its
  singular value, its column of \<open>P\<close> and its row of \<open>Q\<close>.
\<close>

lemma reverse_columns_nth:
  assumes "i < length (ent P)" and "length (ent P ! i) = n" and "j < n"
  shows "ent (reverse_columns P) ! i ! j = ent P ! i ! (n - 1 - j)"
  using assms by (simp add: reverse_columns_def rev_nth)

lemma reverse_rows_nth:
  "i < length (ent Q) \<Longrightarrow> ent (reverse_rows Q) ! i = ent Q ! (length (ent Q) - 1 - i)"
  by (simp add: reverse_rows_def rev_nth)

lemma rev_values_nth: "i < length s \<Longrightarrow> rev s ! i = s ! (length s - 1 - i)"
  by (simp add: rev_nth)

subsubsection \<open>The graded table\<close>

lemma process_graded4:
  "process_df graded4 None PNone = Inr (graded4, 4, 4)"
  by (simp add: process_df_def graded4_def)

lemma correspondence_graded4:
  "correspondence graded4 =
     ([[7 / 64, 5 / 64, 3 / 64, 1 / 64], [5 / 64, 7 / 64, 1 / 64, 3 / 64],
       [3 / 64, 1 / 64, 7 / 64, 5 / 64], [1 / 64, 3 / 64, 5 / 64, 7 / 64]],
      [1 / 4, 1 / 4, 1 / 4, 1 / 4], [1 / 4, 1 / 4, 1 / 4, 1 / 4])"
  by (simp add: correspondence_def graded4_def sum_axis0_def sum_axis1_def column_def upt4)

lemma graded_values_above_tol:
  "\<not> (a4 / 2) ^ 2 < 1 / 10000" "\<not> (a4 / 4) ^ 2 < 1 / 10000" "a4 / 4 < a4 / 2" "0 < a4 / 4"
  by (simp_all add: a4_def eps_def power_divide)

lemma argmax_FFTT: "argmax [False, False, True, True] = Inr 2"
  by (simp add: argmax_def)

lemma argmax_FFT: "argmax [False, False, True] = Inr 2"
  by (simp add: argmax_def)

lemma fit_graded: "fit lib_graded plain_config graded4 = Inr fitted_graded"
proof -
  obtain A where A: "residuals graded4 = Inr A"
    using residuals_Inr [of graded4] by blast
  have c: "self_cols plain_config = None" "self_n_cols plain_config = PNone"
     "\<not> self_benzecri plain_config" "\<not> self_sparse plain_config"
     "self_tol plain_config = 1 / 10000"
    by (simp_all add: plain_config_def default_config_def)
  have d: "decompose lib_graded plain_config graded4 A
             = Inr (P4, [a4 / 2, a4 / 4, 0, 0], Q4, 4)"
    by (simp add: decompose_def c lib_graded_def graded4_def)
  have s: "set_rank [(a4 / 2) ^ 2, (a4 / 4) ^ 2, 0, 0] (decomposed4
             \<lparr>conf := plain_config, self_s := [a4 / 2, a4 / 4, 0, 0]\<rparr>) = Inr fitted_graded"
    using graded_values_above_tol(1,2)
    by (simp add: set_rank_def c argmax_FFTT fitted_graded_def decomposed4_def)
  show ?thesis
    using s
    by (simp add: fit_def c process_graded4 A d correspondence_graded4 squares_def
        decomposed4_def)
qed

lemma fit_graded_sparse:
  "fit lib_graded plain_sparse_config graded4 = Inr fitted_graded_sparse"
proof -
  obtain A where A: "residuals graded4 = Inr A" "shape0 A = 4" "shape1 A = 4"
    using residuals_Inr [of graded4] by (auto simp: graded4_def)
  have c: "self_cols plain_sparse_config = None" "self_n_cols plain_sparse_config = PNone"
     "\<not> self_benzecri plain_sparse_config" "self_sparse plain_sparse_config"
     "self_tol plain_sparse_config = 1 / 10000"
    by (simp_all add: plain_sparse_config_def plain_config_def default_config_def)
  have d: "decompose lib_graded plain_sparse_config graded4 A =
             Inr (\<lparr>shape0 = 4, shape1 = 3, ent = map (take 3) (ent P4)\<rparr>, [a4 / 2, a4 / 4, 0],
                  \<lparr>shape0 = 3, shape1 = 4, ent = take 3 (ent Q4)\<rparr>, 3)"
    using A(2,3)
    by (simp add: decompose_def c lib_graded_def truncated_graded_def reverse_columns_def
        reverse_rows_def min_shape_minus_1_def P4_def Q4_def take3)
  show ?thesis
    using graded_values_above_tol(1,2)
    by (simp add: fit_def c process_graded4 A(1) d correspondence_graded4 squares_def
        set_rank_def argmax_FFT fitted_graded_sparse_def)
qed

text \<open>The library's answers are decompositions of the residual matrix of the table.\<close>

lemma lib_graded_decomposes_residuals:
  "\<exists>R A. residuals graded4 = Inr R \<and> dot P4 (diag [a4 / 2, a4 / 4, 0, 0]) = Inr A
         \<and> dot A Q4 = Inr R"
proof -
  have "length (df_rows graded4) = 4" "length (df_columns graded4) = 4"
    by (simp_all add: graded4_def)
  then show ?thesis
    by (simp add: residuals_def correspondence_graded4 D4 P4_def Q4_def dot_def diag4
        vdot_def column_def minus_rows_def outer_def upt4 nth_simps4 a4_def eps_def power_divide)
qed

lemma lib_graded_descending: "svd_descending lib_graded"
  using graded_values_above_tol(3,4) by (simp add: svd_descending_def lib_graded_def)

lemma lib_graded_ascending: "svds_ascending lib_graded"
  using graded_values_above_tol(3,4)
  by (auto simp: svds_ascending_def lib_graded_def truncated_graded_def take3
      eval_nat_numeral split: if_splits)

text \<open>
  Claim C8. For a library whose full decomposition returns the singular values in
  descending order and whose truncated solver returns them in ascending order, the
  singular values stored by a successful fit are in descending order on both paths. The
  stored triple is the library's answer for the residual matrix of the coded table: as
  returned on the dense path, and on the sparse path with the singular values, the
  columns of \<open>P\<close> and the rows of \<open>Q\<close> all reversed.
\<close>

theorem singular_values_descending:
  assumes "fit lib cfg DF = Inr st" and "svd_descending lib" and "svds_ascending lib"
  shows "sorted_wrt (\<ge>) (self_s st)
         \<and> (\<exists>X K J A P s Q.
               process_df DF (self_cols cfg) (self_n_cols cfg) = Inr (X, K, J)
             \<and> residuals X = Inr A
             \<and> (if self_sparse cfg
                 then svds lib A (if self_n_cols cfg = PNone then PInt (min_shape_minus_1 A)
                                  else self_n_cols cfg) = Inr (P, s, Q)
                      \<and> sorted_wrt (\<le>) s
                      \<and> self_s st = rev s \<and> self_P st = reverse_columns P
                      \<and> self_Q st = reverse_rows Q
                 else svd lib A = Inr (P, s, Q)
                      \<and> self_s st = s \<and> self_P st = P \<and> self_Q st = Q))"
proof -
  from fit_Inr [OF assms(1)] obtain X K J product P s Q numitems E st0 where
    pr: "process_df DF (self_cols cfg) (self_n_cols cfg) = Inr (X, K, J)"
    and r: "residuals X = Inr product"
    and d: "decompose lib cfg X product = Inr (P, s, Q, numitems)"
    and sr: "set_rank E st0 = Inr st"
    and f: "self_P st0 = P" "self_s st0 = s" "self_Q st0 = Q"
    by blast
  note g = set_rank_fields [OF sr]
  show ?thesis
  proof (cases "self_sparse cfg")
    case True
    then obtain P' s' Q' where
      sv: "svds lib product (if self_n_cols cfg = PNone then PInt (min_shape_minus_1 product)
                             else self_n_cols cfg) = Inr (P', s', Q')"
      and eq: "P = reverse_columns P'" "s = rev s'" "Q = reverse_rows Q'"
      using d by (auto simp: decompose_def split: sum.splits prod.splits)
    have asc: "sorted_wrt (\<le>) s'" using assms(3) sv unfolding svds_ascending_def by blast
    then have "sorted_wrt (\<ge>) (rev s')" by (simp add: sorted_wrt_rev)
    then have 1: "sorted_wrt (\<ge>) (self_s st)" using eq f g by simp
    have "svds lib product (if self_n_cols cfg = PNone then PInt (min_shape_minus_1 product)
                            else self_n_cols cfg) = Inr (P', s', Q')
          \<and> sorted_wrt (\<le>) s' \<and> self_s st = rev s' \<and> self_P st = reverse_columns P'
          \<and> self_Q st = reverse_rows Q'"
      using sv asc eq f g by simp
    with pr r True 1 show ?thesis by auto
  next
    case False
    then have sv: "svd lib product = Inr (P, s, Q)"
      using d by (auto simp: decompose_def split: sum.splits prod.splits)
    then have "sorted_wrt (\<ge>) s" using assms(2) unfolding svd_descending_def by blast
    then have 1: "sorted_wrt (\<ge>) (self_s st)" using f g by simp
    have "svd lib product = Inr (P, s, Q) \<and> self_s st = s \<and> self_P st = P \<and> self_Q st = Q"
      using sv f g by simp
    with pr r False 1 show ?thesis by auto
  qed
qed

theorem singular_values_descending_witness:
  "svd_descending lib_graded \<and> svds_ascending lib_graded
   \<and> fit lib_graded plain_config graded4 = Inr fitted_graded
   \<and> svd lib_graded (projr (residuals graded4)) = Inr (P4, [a4 / 2, a4 / 4, 0, 0], Q4)
   \<and> self_s fitted_graded = [a4 / 2, a4 / 4, 0, 0]
   \<and> sorted_wrt (\<ge>) (self_s fitted_graded)
   \<and> fit lib_graded plain_sparse_config graded4 = Inr fitted_graded_sparse
   \<and> fst (snd (truncated_graded 3)) = [0, a4 / 4, a4 / 2]
   \<and> 0 < a4 / 4 \<and> a4 / 4 < a4 / 2
   \<and> self_s fitted_graded_sparse = [a4 / 2, a4 / 4, 0]
   \<and> sorted_wrt (\<ge>) (self_s fitted_graded_sparse)
   \<and> self_P fitted_graded_sparse = reverse_columns (fst (truncated_graded 3))
   \<and> self_Q fitted_graded_sparse = reverse_rows (snd (snd (truncated_graded 3)))"
proof -
  note dense = singular_values_descending [OF fit_graded lib_graded_descending lib_graded_ascending]
  note sparse = singular_values_descending
                  [OF fit_graded_sparse lib_graded_descending lib_graded_ascending]
  have 1: "sorted_wrt (\<ge>) (self_s fitted_graded)" using dense by blast
  have 2: "sorted_wrt (\<ge>) (self_s fitted_graded_sparse)" using sparse by blast
  have 3: "svd lib_graded (projr (residuals graded4)) = Inr (P4, [a4 / 2, a4 / 4, 0, 0], Q4)"
    by (simp add: lib_graded_def)
  have 4: "self_s fitted_graded = [a4 / 2, a4 / 4, 0, 0]"
    "self_s fitted_graded_sparse = [a4 / 2, a4 / 4, 0]"
    by (simp_all add: fitted_graded_def fitted_graded_sparse_def)
  have 5: "fst (snd (truncated_graded 3)) = [0, a4 / 4, a4 / 2]"
    by (simp add: truncated_graded_def take3)
  have 6: "self_P fitted_graded_sparse = reverse_columns (fst (truncated_graded 3))"
    "self_Q fitted_graded_sparse = reverse_rows (snd (snd (truncated_graded 3)))"
    by (simp_all add: fitted_graded_sparse_def truncated_graded_def reverse_columns_def
        reverse_rows_def P4_def Q4_def take3)
  show ?thesis
    using lib_graded_descending lib_graded_ascending fit_graded fit_graded_sparse
      graded_values_above_tol(3,4) 1 2 3 4 5 6
    by (intro conjI)
qed

subsection \<open>Invalid configurations\<close>

lemma getitems_error: "getitems DF cs = Inl e \<Longrightarrow> \<exists>c. e = KeyError c"
  by (induction cs arbitrary: e) (auto simp: getitem_def split: if_splits sum.splits)

lemma getitems_length: "getitems DF cs = Inr sel \<Longrightarrow> length sel = length cs"
  by (induction cs arbitrary: sel) (auto split: sum.splits)

lemma getitems_Inr: "set cs \<subseteq> set (df_columns DF) \<Longrightarrow> \<exists>sel. getitems DF cs = Inr sel"
  by (induction cs) (auto simp: getitem_def)


text \<open>
  With columns selected, the coder raises a ValueError exactly when every selected label
  exists and the number of selected columns differs from the number of columns of the
  table.
\<close>

lemma dummy_ValueError:
  assumes "cs \<noteq> []"
  shows "(\<exists>msg. dummy DF (Some cs) = Inl (ValueError msg))
         \<longleftrightarrow> set cs \<subseteq> set (df_columns DF) \<and> length cs \<noteq> length (df_columns DF)"
proof (cases "getitems DF cs")
  case (Inl e)
  then obtain c where "e = KeyError c" using getitems_error by blast
  moreover have "\<not> set cs \<subseteq> set (df_columns DF)" using Inl getitems_Inr [of cs DF] by auto
  ultimately show ?thesis using Inl by (simp add: dummy_def)
next
  case (Inr sel)
  then have len: "length sel = length cs" by (rule getitems_length)
  have sub: "set cs \<subseteq> set (df_columns DF)"
  proof (rule ccontr)
    assume "\<not> set cs \<subseteq> set (df_columns DF)"
    then obtain c where c: "c \<in> set cs" "c \<notin> set (df_columns DF)" by auto
    have "\<And>sel. c \<in> set cs \<Longrightarrow> getitems DF cs \<noteq> Inr sel"
      using c(2) by (induction cs) (auto simp: getitem_def split: sum.splits)
    then show False using c(1) Inr by blast
  qed
  have "sel \<noteq> []" using len assms by auto
  then show ?thesis using Inr len sub by (auto simp: dummy_def concat_axis1_def)
qed






text \<open>A column list shorter than the table's is rejected by \<^verbatim>\<open>concat\<close>, at fit time.\<close>

lemma process_df_column_subset:
  "process_df identity4 (Some [''a'', ''b'']) PNone
     = Inl (ValueError
             ''The length of the keys must match the length of the objects to concatenate'')"
  by (simp add: process_df_def dummy_def getitem_def identity4_def concat_axis1_def)




subsection \<open>Supplementary rows of the fitted table\<close>

lemma a4_pos: "0 < a4"
  by (simp add: a4_def eps_def)

lemma a4_nonzero: "a4 \<noteq> 0"
  using a4_pos by simp

lemma a4_sq_big: "\<not> a4 ^ 2 * 10000 < 1"
  by (simp add: a4_def eps_def power_divide)

lemma fit_plain: "fit lib4 plain_config identity4 = Inr fitted4_plain"
proof -
  obtain A where A: "residuals identity4 = Inr A" "shape0 A = 4" "shape1 A = 4"
    using residuals_shape by blast
  have c: "self_cols plain_config = None" "self_n_cols plain_config = PNone"
     "\<not> self_benzecri plain_config" "\<not> self_sparse plain_config"
     "self_tol plain_config = 1 / 10000"
    by (simp_all add: plain_config_def default_config_def)
  have d: "decompose lib4 plain_config identity4 A = Inr (P4, [a4, a4, a4, 0], Q4, 4)"
    by (simp add: decompose_def c lib4_def identity4_def)
  show ?thesis
    by (simp add: fit_def c process_identity4 A(1) d correspondence_identity4
        set_rank_def squares_def a4_sq_big argmax_FFFT fitted4_plain_def decomposed4_def)
qed

lemma retained_k_plain: "retained_k exact [a4 ^ 2, a4 ^ 2, a4 ^ 2] (9 / 10) = Inr 3"
proof -
  have p: "0 < a4 ^ 2" using a4_pos by simp
  have "\<forall>j. 1 \<le> j \<and> j < 3 \<longrightarrow>
          sum_list (take j [a4 ^ 2, a4 ^ 2, a4 ^ 2]) < sum_list [a4 ^ 2, a4 ^ 2, a4 ^ 2] * (9 / 10)"
  proof (intro allI impI)
    fix j :: nat assume "1 \<le> j \<and> j < 3"
    then have "j = 1 \<or> j = 2" by auto
    then show "sum_list (take j [a4 ^ 2, a4 ^ 2, a4 ^ 2])
                 < sum_list [a4 ^ 2, a4 ^ 2, a4 ^ 2] * (9 / 10)"
      using p by (auto simp: eval_nat_numeral)
  qed
  moreover have "sum_list [a4 ^ 2, a4 ^ 2, a4 ^ 2] * (9 / 10) \<le> sum_list (take 3 [a4 ^ 2, a4 ^ 2, a4 ^ 2])"
    using p by simp
  ultimately show ?thesis by (simp add: retained_k_exact_Inr)
qed

lemma diagsvd_4_3:
  "diagsvd [x, y, z] 4 3 =
     Inr \<lparr>shape0 = 4, shape1 = 3, ent = [[x, 0, 0], [0, y, 0], [0, 0, z], [0, 0, 0]]\<rparr>"
  by (simp add: diagsvd_def diag_def upt3 nth_simps4 eval_nat_numeral)

lemma diagsvd_3_3:
  "diagsvd [x, y, z] 3 3 =
     Inr \<lparr>shape0 = 3, shape1 = 3, ent = [[x, 0, 0], [0, y, 0], [0, 0, z]]\<rparr>"
  by (simp add: diagsvd_def diag_def upt3 nth_simps4)

lemma row_scores_plain:
  "fst (calc_row_factor_scores exact fitted4_plain (9 / 10) PNone)
     = Inr (scaled_contrasts (a4 / (eps + 1 / 2)))"
  by (simp add: calc_row_factor_scores_def fitted4_plain_def decomposed4_def clamp_N_def
      retained_k_plain num2ret_def scaling_def plain_config_def default_config_def take3
      diagsvd_4_3 D4 P4_def dot_def vdot_def column_def upt3 upt4 nth_simps4 scaled_contrasts_def)

lemma col_scores_plain:
  "calc_col_factor_scores exact fitted4_plain (9 / 10) (PInt 3)
     = (Inr (scaled_contrasts (a4 / (eps + 1 / 2))),
        fitted4_plain\<lparr>self_k := Some 3, self_G := Some (scaled_contrasts (a4 / (eps + 1 / 2)))\<rparr>)"
  by (simp add: calc_col_factor_scores_def fitted4_plain_def decomposed4_def clamp_N_def
      retained_k_plain num2ret_def scaling_def plain_config_def default_config_def take3
      diagsvd_4_3 D4 P4_def Q4_def transpose_mat_def dot_def vdot_def column_def upt3 upt4
      nth_simps4 scaled_contrasts_def)

lemma row_profiles_identity4:
  "row_profiles identity4 =
     \<lparr>shape0 = 4, shape1 = 4,
      ent = [[1, 0, 0, 0], [0, 1, 0, 0], [0, 0, 1, 0], [0, 0, 0, 1]]\<rparr>"
  by (simp add: row_profiles_def identity4_def)

lemma project_plain:
  "project_rows (fitted4_plain\<lparr>self_k := Some 3,
                    self_G := Some (scaled_contrasts (a4 / (eps + 1 / 2)))\<rparr>)
      (scaled_contrasts (a4 / (eps + 1 / 2))) identity4 PNone
     = Inr (scaled_contrasts (- 1 / (eps + 1 / 2)))"
  by (simp add: project_rows_def bad_sup_N_def fitted4_plain_def decomposed4_def
      plain_config_def default_config_def take3 diagsvd_3_3 row_profiles_identity4
      scaled_contrasts_def P4_def dot_def vdot_def column_def upt3 upt4 nth_simps4
      first_columns_def a4_nonzero)

lemma sup_plain:
  "fst (fs_r_sup exact fitted4_plain identity4 PNone) = Inr (scaled_contrasts (- 1 / (eps + 1 / 2)))"
proof -
  have g: "self_G fitted4_plain = None" "self_rank fitted4_plain = 3"
    by (simp_all add: fitted4_plain_def decomposed4_def)
  show ?thesis
    by (simp add: fs_r_sup_def g col_scores_plain project_plain)
qed

lemma scale_bounds: "19 / 10 < a4 / (eps + 1 / 2)" "- 1 / (eps + 1 / 2) < - 19 / 10"
  by (simp_all add: a4_def eps_def power_divide)

lemma entry_bounds:
  "9 / 10 < a4 / (eps + 1 / 2) * (1 / 2)" "- 1 / (eps + 1 / 2) * (1 / 2) < - 9 / 10"
  by (simp_all add: a4_def eps_def power_divide)

text \<open>The library's answer is a singular value decomposition of the residual matrix.\<close>

lemma lib4_decomposes_residuals:
  "\<exists>R A. residuals identity4 = Inr R \<and> dot P4 (diag [a4, a4, a4, 0]) = Inr A \<and> dot A Q4 = Inr R"
proof -
  have "length (df_rows identity4) = 4" "length (df_columns identity4) = 4"
    by (simp_all add: identity4_def)
  then show ?thesis
    by (simp add: residuals_def correspondence_identity4 D4 P4_def Q4_def dot_def diag4
        vdot_def column_def minus_rows_def outer_def upt4 nth_simps4 a4_def eps_def power_divide)
qed

lemma lib4_orthonormal:
  "dot (transpose_mat P4) P4 = Inr (diag [1, 1, 1, 1])"
  "dot Q4 (transpose_mat Q4) = Inr (diag [1, 1, 1, 1])"
  by (simp_all add: P4_def Q4_def transpose_mat_def dot_def diag4 vdot_def column_def upt4
      nth_simps4)

text \<open>
  Claim C3. The dense fit of \<open>identity4\<close> without the Benzecri correction, in exact
  arithmetic: the row factor scores are the three contrasts scaled by \<open>a4 / (eps + 1/2) > 19/10\<close>, and the
  supplementary-row projection of the same table is the three contrasts scaled by
  \<open>-1 / (eps + 1/2) < -19/10\<close>. Every row has mass 1/4; the first entry of the first row is
  above \<open>9/10\<close> in the scores and below \<open>-9/10\<close> in the projection.
\<close>

theorem supplementary_rows_of_fit_table:
  "fit lib4 plain_config identity4 = Inr fitted4_plain
   \<and> fst (calc_row_factor_scores exact fitted4_plain (9 / 10) PNone)
       = Inr (scaled_contrasts (a4 / (eps + 1 / 2)))
   \<and> fst (fs_r_sup exact fitted4_plain identity4 PNone)
       = Inr (scaled_contrasts (- 1 / (eps + 1 / 2)))
   \<and> 19 / 10 < a4 / (eps + 1 / 2) \<and> - 1 / (eps + 1 / 2) < - 19 / 10
   \<and> ent (scaled_contrasts (a4 / (eps + 1 / 2))) ! 0 ! 0 > 9 / 10
   \<and> ent (scaled_contrasts (- 1 / (eps + 1 / 2))) ! 0 ! 0 < - 9 / 10"
proof -
  have "ent (scaled_contrasts (a4 / (eps + 1 / 2))) ! 0 ! 0 = a4 / (eps + 1 / 2) * (1 / 2)"
    "ent (scaled_contrasts (- 1 / (eps + 1 / 2))) ! 0 ! 0 = - 1 / (eps + 1 / 2) * (1 / 2)"
    by (simp_all add: scaled_contrasts_def P4_def take3)
  then have "ent (scaled_contrasts (a4 / (eps + 1 / 2))) ! 0 ! 0 > 9 / 10"
    "ent (scaled_contrasts (- 1 / (eps + 1 / 2))) ! 0 ! 0 < - 9 / 10"
    using entry_bounds by (simp_all only:)
  then show ?thesis
    using fit_plain row_scores_plain sup_plain scale_bounds by (intro conjI)
qed

end
